theory Spec2Isabelle
  imports Main "HOL-Library.Word"
begin

section \<open>C strings and the comparison functions of the C library\<close>

text \<open>
  A \<^verbatim>\<open>const char *\<close> argument is a \<open>string option\<close>: \<open>None\<close> is the NULL pointer,
  \<open>Some s\<close> a pointer to a string whose bytes before the terminating NUL are the list
  \<open>s\<close>. The terminator itself is not part of the list, so \<^verbatim>\<open>*str == '\0'\<close> reads
  \<open>s = []\<close>, and every byte of the list compares greater than the terminator.
\<close>

type_synonym cstr = "string option"

text \<open>
  \<^verbatim>\<open>strcmp\<close> and \<^verbatim>\<open>strncmp\<close> belong to the C library. They are written here after
  ISO C 7.21.4: the bytes are compared as \<^verbatim>\<open>unsigned char\<close>, the comparison stops at
  the first difference or at the terminator, and only the sign of the result is
  specified. \<^verbatim>\<open>strncmp\<close> looks at no more than \<open>n\<close> bytes and at nothing after a
  terminator.
\<close>

fun strcmp :: "string \<Rightarrow> string \<Rightarrow> int" where
  "strcmp [] [] = 0"
| "strcmp [] (y # ys) = - 1"
| "strcmp (x # xs) [] = 1"
| "strcmp (x # xs) (y # ys) =
     (if x = y then strcmp xs ys
      else if (of_char x :: nat) < of_char y then - 1 else 1)"

fun strncmp :: "string \<Rightarrow> string \<Rightarrow> nat \<Rightarrow> int" where
  "strncmp [] [] n = 0"
| "strncmp [] (y # ys) n = (if n = 0 then 0 else - 1)"
| "strncmp (x # xs) [] n = (if n = 0 then 0 else 1)"
| "strncmp (x # xs) (y # ys) n =
     (if n = 0 then 0
      else if x = y then strncmp xs ys (n - 1)
      else if (of_char x :: nat) < of_char y then - 1 else 1)"

section \<open>The conversion functions of the C library\<close>

text \<open>
  \<^verbatim>\<open>strtol\<close>, \<^verbatim>\<open>strtoll\<close> and \<^verbatim>\<open>strtoull\<close> belong to the C library. They are written
  here after ISO C 7.20.1.4 in the "C" locale, with the two points the standard leaves
  to the implementation taken from glibc: a base other than 0 and 2..36 stores EINVAL,
  and no error is stored when there is nothing to convert. A call returns the converted
  value, the string \<^verbatim>\<open>endptr\<close> is left pointing at, and the value of \<^verbatim>\<open>errno\<close>
  after the call (the callers clear it before).
\<close>

datatype errno = ENONE | EINVAL | ERANGE

definition isspace :: "char \<Rightarrow> bool" where
  "isspace c \<longleftrightarrow> c = CHR '' '' \<or> (9 \<le> (of_char c :: nat) \<and> (of_char c :: nat) \<le> 13)"

definition isdigit :: "char \<Rightarrow> bool" where
  "isdigit c \<longleftrightarrow> 48 \<le> (of_char c :: nat) \<and> (of_char c :: nat) \<le> 57"

definition isupper :: "char \<Rightarrow> bool" where
  "isupper c \<longleftrightarrow> 65 \<le> (of_char c :: nat) \<and> (of_char c :: nat) \<le> 90"

definition islower :: "char \<Rightarrow> bool" where
  "islower c \<longleftrightarrow> 97 \<le> (of_char c :: nat) \<and> (of_char c :: nat) \<le> 122"

text \<open>The value of a digit: \<open>0..9\<close>, then the letters of either case for 10 to 35.\<close>

definition digit_value :: "char \<Rightarrow> nat option" where
  "digit_value c =
     (if isdigit c then Some (of_char c - 48)
      else if islower c then Some (of_char c - 87)
      else if isupper c then Some (of_char c - 55)
      else None)"

definition in_base :: "nat \<Rightarrow> char \<Rightarrow> bool" where
  "in_base b c = (case digit_value c of Some d \<Rightarrow> d < b | None \<Rightarrow> False)"

fun digits_value :: "nat \<Rightarrow> nat \<Rightarrow> string \<Rightarrow> nat" where
  "digits_value b acc [] = acc"
| "digits_value b acc (c # cs) =
     digits_value b (acc * b + (case digit_value c of Some d \<Rightarrow> d | None \<Rightarrow> 0)) cs"

text \<open>An optional sign: whether it was a minus, and what follows it.\<close>

definition skip_sign :: "string \<Rightarrow> bool \<times> string" where
  "skip_sign s =
     (case s of
        [] \<Rightarrow> (False, [])
      | c # t \<Rightarrow> if c = CHR ''-'' then (True, t) else if c = CHR ''+'' then (False, t) else (False, s))"

text \<open>
  With base 0 or 16 the digits may follow \<^verbatim>\<open>0x\<close> or \<^verbatim>\<open>0X\<close>. The prefix belongs to the
  number only when a hexadecimal digit comes after it; otherwise the number is the
  \<^verbatim>\<open>0\<close> alone and the conversion stops at the \<^verbatim>\<open>x\<close>.
\<close>

definition has_hex_prefix :: "int \<Rightarrow> string \<Rightarrow> bool" where
  "has_hex_prefix base s \<longleftrightarrow>
     (base = 0 \<or> base = 16) \<and>
     (case s of
        c0 # c1 # c2 # _ \<Rightarrow> c0 = CHR ''0'' \<and> (c1 = CHR ''x'' \<or> c1 = CHR ''X'') \<and> in_base 16 c2
      | _ \<Rightarrow> False)"

definition effective_base :: "int \<Rightarrow> string \<Rightarrow> nat" where
  "effective_base base s =
     (if has_hex_prefix base s then 16
      else if base = 0 then (case s of c # _ \<Rightarrow> if c = CHR ''0'' then 8 else 10 | [] \<Rightarrow> 10)
      else nat base)"

definition strip_prefix :: "int \<Rightarrow> string \<Rightarrow> string" where
  "strip_prefix base s = (if has_hex_prefix base s then drop 2 s else s)"

text \<open>
  The subject sequence: white space, an optional sign, an optional prefix and the longest
  run of digits of the base. \<open>None\<close> when there is no digit (nothing is converted),
  otherwise the sign, the magnitude as an unbounded number and the unread rest.
\<close>

definition strto_magnitude :: "string \<Rightarrow> int \<Rightarrow> (bool \<times> nat \<times> string) option" where
  "strto_magnitude s base =
     (let (neg, s1) = skip_sign (dropWhile isspace s);
          b = effective_base base s1;
          s2 = strip_prefix base s1;
          ds = takeWhile (in_base b) s2
      in if ds = [] then None
         else Some (neg, digits_value b 0 ds, dropWhile (in_base b) s2))"

definition bad_base :: "int \<Rightarrow> bool" where
  "bad_base base \<longleftrightarrow> base < 0 \<or> base = 1 \<or> 36 < base"

text \<open>
  \<^verbatim>\<open>long long\<close> has 64 bits. A value out of range is replaced by the nearest bound and
  ERANGE is stored. After EINVAL \<^verbatim>\<open>endptr\<close> is not written; the callers do not read
  it then, and the model returns the input there.
\<close>

definition strtoll :: "string \<Rightarrow> int \<Rightarrow> 64 word \<times> string \<times> errno" where
  "strtoll s base =
     (if bad_base base then (0, s, EINVAL)
      else case strto_magnitude s base of
        None \<Rightarrow> (0, s, ENONE)
      | Some (neg, m, rest) \<Rightarrow>
          (let v = (if neg then - int m else int m)
           in if v < - (2 ^ 63) then (word_of_int (- (2 ^ 63)), rest, ERANGE)
              else if 2 ^ 63 - 1 < v then (word_of_int (2 ^ 63 - 1), rest, ERANGE)
              else (word_of_int v, rest, ENONE)))"

text \<open>\<^verbatim>\<open>long\<close> has 64 bits too (LP64), so \<^verbatim>\<open>strtol\<close> converts as \<^verbatim>\<open>strtoll\<close> does.\<close>

definition strtol :: "string \<Rightarrow> int \<Rightarrow> 64 word \<times> string \<times> errno" where
  "strtol s base = strtoll s base"

text \<open>
  \<^verbatim>\<open>strtoull\<close> accepts a minus sign: the magnitude is converted, and negated in the
  unsigned type. Only a magnitude above \<^verbatim>\<open>ULLONG_MAX\<close> is a range error.
\<close>

definition strtoull :: "string \<Rightarrow> int \<Rightarrow> 64 word \<times> string \<times> errno" where
  "strtoull s base =
     (if bad_base base then (0, s, EINVAL)
      else case strto_magnitude s base of
        None \<Rightarrow> (0, s, ENONE)
      | Some (neg, m, rest) \<Rightarrow>
          if 2 ^ 64 - 1 < m then (- 1, rest, ERANGE)
          else (if neg then - of_nat m else of_nat m, rest, ENONE))"

text \<open>
  \<^verbatim>\<open>strtof\<close> and \<^verbatim>\<open>strtod\<close> (ISO C 7.20.1.3, "C" locale). How far the conversion reads is
  a matter of syntax and is written out: a decimal number with an optional exponent, a
  hexadecimal number after \<^verbatim>\<open>0x\<close> with an optional binary exponent, \<^verbatim>\<open>inf\<close> or
  \<^verbatim>\<open>infinity\<close>, or \<^verbatim>\<open>nan\<close> with an optional parenthesised sequence, letters of
  either case. The rounding of the subject sequence to the floating-point type and the
  range error are not modelled: they are the parameter \<open>cv\<close>, which gives the value and
  the error for a subject sequence, and for the empty sequence the zero returned when
  nothing is converted.
\<close>

definition tolower :: "char \<Rightarrow> char" where
  "tolower c = (if isupper c then char_of (of_char c + 32 :: nat) else c)"

definition starts_with_ci :: "string \<Rightarrow> string \<Rightarrow> bool" where
  "starts_with_ci w s \<longleftrightarrow> length w \<le> length s \<and> map tolower (take (length w) s) = w"

definition isxdigit :: "char \<Rightarrow> bool" where
  "isxdigit c = in_base 16 c"

definition isnchar :: "char \<Rightarrow> bool" where
  "isnchar c \<longleftrightarrow> isdigit c \<or> islower c \<or> isupper c \<or> c = CHR ''_''"

text \<open>Digits with at most one point among them and at least one digit.\<close>

definition scan_mantissa :: "(char \<Rightarrow> bool) \<Rightarrow> string \<Rightarrow> string option" where
  "scan_mantissa dig s =
     (let ip = takeWhile dig s; r = dropWhile dig s
      in case r of
           [] \<Rightarrow> if ip = [] then None else Some r
         | c # t \<Rightarrow>
             if c = CHR ''.'' \<and> (ip \<noteq> [] \<or> takeWhile dig t \<noteq> []) then Some (dropWhile dig t)
             else if ip = [] then None else Some r)"

text \<open>An exponent is read only when a digit follows its letter and optional sign.\<close>

definition scan_exponent :: "char \<Rightarrow> string \<Rightarrow> string" where
  "scan_exponent e s =
     (case s of
        [] \<Rightarrow> s
      | c # t \<Rightarrow>
          if tolower c = e then
            (case snd (skip_sign t) of
               [] \<Rightarrow> s
             | d # u \<Rightarrow> if isdigit d then dropWhile isdigit u else s)
          else s)"

definition scan_nan_chars :: "string \<Rightarrow> string" where
  "scan_nan_chars s =
     (case s of
        [] \<Rightarrow> s
      | c # t \<Rightarrow>
          if c = CHR ''('' then
            (case dropWhile isnchar t of
               [] \<Rightarrow> s
             | d # u \<Rightarrow> if d = CHR '')'' then u else s)
          else s)"

text \<open>What is left after the subject sequence, from behind white space and sign.\<close>

definition scan_float :: "string \<Rightarrow> string option" where
  "scan_float s =
     (if starts_with_ci ''infinity'' s then Some (drop 8 s)
      else if starts_with_ci ''inf'' s then Some (drop 3 s)
      else if starts_with_ci ''nan'' s then Some (scan_nan_chars (drop 3 s))
      else if starts_with_ci ''0x'' s \<and> scan_mantissa isxdigit (drop 2 s) \<noteq> None
        then map_option (scan_exponent CHR ''p'') (scan_mantissa isxdigit (drop 2 s))
      else map_option (scan_exponent CHR ''e'') (scan_mantissa isdigit s))"

definition strto_float :: "(string \<Rightarrow> 'f \<times> errno) \<Rightarrow> string \<Rightarrow> 'f \<times> string \<times> errno" where
  "strto_float cv s =
     (case scan_float (snd (skip_sign (dropWhile isspace s))) of
        None \<Rightarrow> (fst (cv []), s, ENONE)
      | Some rest \<Rightarrow>
          (let (v, err) = cv (take (length s - length rest) s) in (v, rest, err)))"

definition strtof :: "(string \<Rightarrow> 'f \<times> errno) \<Rightarrow> string \<Rightarrow> 'f \<times> string \<times> errno" where
  "strtof cv s = strto_float cv s"

definition strtod :: "(string \<Rightarrow> 'd \<times> errno) \<Rightarrow> string \<Rightarrow> 'd \<times> string \<times> errno" where
  "strtod cv s = strto_float cv s"

text \<open>
  \<^verbatim>\<open>vsnprintf\<close> (ISO C 7.19.6.12). The expansion of the format with its arguments is
  the parameter \<open>expand\<close>: the text to print, or \<open>None\<close> for an encoding error. The
  buffer is the list of the bytes of the array, which the caller makes at least
  \<^verbatim>\<open>size\<close> bytes long. With a size other than zero the first
  \<open>size - 1\<close> bytes of the text are stored, then a NUL; the bytes of the array behind them
  keep their content (\<open>sz\<close> is the argument \<^verbatim>\<open>size\<close>). The result is the length of the
  whole text, or negative after an error or for a text longer than \<^verbatim>\<open>INT_MAX\<close>; the
  array is taken to be left as it was then.
\<close>

definition NUL :: char where
  "NUL = CHR 0x00"

definition store :: "string \<Rightarrow> string \<Rightarrow> string" where
  "store bytes array = bytes @ drop (length bytes) array"

definition vsnprintf :: "string \<Rightarrow> 64 word \<Rightarrow> string option \<Rightarrow> 32 word \<times> string" where
  "vsnprintf buffer sz text =
     (case text of
        None \<Rightarrow> (- 1, buffer)
      | Some t \<Rightarrow>
          if 2 ^ 31 - 1 < length t then (- 1, buffer)
          else (of_nat (length t),
                if sz = 0 then buffer else store (take (unat sz - 1) t @ [NUL]) buffer))"

section \<open>spa/utils/string.h\<close>

subsection \<open>String equality\<close>

text \<open>
  \<^verbatim>\<open>return SPA_LIKELY(s1 && s2) ? strcmp(s1, s2) == 0 : s1 == s2;\<close>
  The second branch compares two pointers of which at least one is NULL, so it is true
  exactly when both are NULL.
\<close>

fun spa_streq :: "cstr \<Rightarrow> cstr \<Rightarrow> bool" where
  "spa_streq (Some a) (Some b) = (strcmp a b = 0)"
| "spa_streq None None = True"
| "spa_streq _ _ = False"

text \<open>\<^verbatim>\<open>size_t\<close> is a 64-bit unsigned word.\<close>

type_synonym size_t = "64 word"

fun spa_strneq :: "cstr \<Rightarrow> cstr \<Rightarrow> size_t \<Rightarrow> bool" where
  "spa_strneq (Some a) (Some b) len = (strncmp a b (unat len) = 0)"
| "spa_strneq None None len = True"
| "spa_strneq _ _ len = False"

subsection \<open>Booleans\<close>

text \<open>\<^verbatim>\<open>return spa_streq(str, "true") || spa_streq(str, "1");\<close>\<close>

definition spa_atob :: "cstr \<Rightarrow> bool" where
  "spa_atob str = (spa_streq str (Some ''true'') \<or> spa_streq str (Some ''1''))"

subsection \<open>Integers\<close>

type_synonym int32_t = "32 word"
type_synonym uint32_t = "32 word"
type_synonym int64_t = "64 word"
type_synonym uint64_t = "64 word"

text \<open>
  Each parser takes the string, the content of \<^verbatim>\<open>*val\<close> before the call and the base,
  and returns the result together with the content of \<^verbatim>\<open>*val\<close> after the call.
  \<^verbatim>\<open>v != (int32_t)v\<close> truncates \<open>v\<close> to 32 bits and widens it again with its sign.
\<close>

definition spa_atoi32 :: "cstr \<Rightarrow> int32_t \<Rightarrow> int \<Rightarrow> bool \<times> int32_t" where
  "spa_atoi32 str val base =
     (case str of
        None \<Rightarrow> (False, val)
      | Some s \<Rightarrow>
          if s = [] then (False, val)
          else (let (v, endptr, err) = strtol s base
                in if err \<noteq> ENONE \<or> endptr \<noteq> [] then (False, val)
                   else if v \<noteq> scast (scast v :: int32_t) then (False, val)
                   else (True, scast v)))"

definition spa_atou32 :: "cstr \<Rightarrow> uint32_t \<Rightarrow> int \<Rightarrow> bool \<times> uint32_t" where
  "spa_atou32 str val base =
     (case str of
        None \<Rightarrow> (False, val)
      | Some s \<Rightarrow>
          if s = [] then (False, val)
          else (let (v, endptr, err) = strtoull s base
                in if err \<noteq> ENONE \<or> endptr \<noteq> [] then (False, val)
                   else if v \<noteq> ucast (ucast v :: uint32_t) then (False, val)
                   else (True, ucast v)))"

definition spa_atoi64 :: "cstr \<Rightarrow> int64_t \<Rightarrow> int \<Rightarrow> bool \<times> int64_t" where
  "spa_atoi64 str val base =
     (case str of
        None \<Rightarrow> (False, val)
      | Some s \<Rightarrow>
          if s = [] then (False, val)
          else (let (v, endptr, err) = strtoll s base
                in if err \<noteq> ENONE \<or> endptr \<noteq> [] then (False, val)
                   else (True, v)))"

definition spa_atou64 :: "cstr \<Rightarrow> uint64_t \<Rightarrow> int \<Rightarrow> bool \<times> uint64_t" where
  "spa_atou64 str val base =
     (case str of
        None \<Rightarrow> (False, val)
      | Some s \<Rightarrow>
          if s = [] then (False, val)
          else (let (v, endptr, err) = strtoull s base
                in if err \<noteq> ENONE \<or> endptr \<noteq> [] then (False, val)
                   else (True, v)))"

subsection \<open>Floating point\<close>

text \<open>The two parsers take the conversion of the subject sequence as first argument.\<close>

definition spa_atof :: "(string \<Rightarrow> 'f \<times> errno) \<Rightarrow> cstr \<Rightarrow> 'f \<Rightarrow> bool \<times> 'f" where
  "spa_atof cv str val =
     (case str of
        None \<Rightarrow> (False, val)
      | Some s \<Rightarrow>
          if s = [] then (False, val)
          else (let (v, endptr, err) = strtof cv s
                in if err \<noteq> ENONE \<or> endptr \<noteq> [] then (False, val)
                   else (True, v)))"

definition spa_atod :: "(string \<Rightarrow> 'd \<times> errno) \<Rightarrow> cstr \<Rightarrow> 'd \<Rightarrow> bool \<times> 'd" where
  "spa_atod cv str val =
     (case str of
        None \<Rightarrow> (False, val)
      | Some s \<Rightarrow>
          if s = [] then (False, val)
          else (let (v, endptr, err) = strtod cv s
                in if err \<noteq> ENONE \<or> endptr \<noteq> [] then (False, val)
                   else (True, v)))"

subsection \<open>Bounded formatting\<close>

text \<open>A call either ends the process or returns.\<close>

datatype 'a run = Aborted | Returned 'a

text \<open>Modelled from the spec: \<^verbatim>\<open>spa_assert\<close> is a macro of \<^verbatim>\<open>spa/utils/defs.h\<close>, which
  is not among the sources. The spec makes a capacity that is not positive "a fatal,
  unrecoverable condition (process termination)", and the comment above
  \<^verbatim>\<open>spa_vscnprintf\<close> says that "a negative or zero size will abort() the program":
  a failed assertion ends the run, a true one lets it go on.\<close>

definition spa_assert :: "bool \<Rightarrow> 'a run \<Rightarrow> 'a run" where
  "spa_assert cond continue = (if cond then continue else Aborted)"

text \<open>
  \<^verbatim>\<open>ssize_t\<close> is the signed reading of the 64 bits of a \<^verbatim>\<open>size_t\<close>; an \<^verbatim>\<open>int\<close> has 32
  bits and is widened with its sign for the comparison with it. \<^verbatim>\<open>return size - 1\<close>
  keeps the low 32 bits. A run that returns gives the result and the buffer.
\<close>

definition spa_vscnprintf ::
  "(string \<Rightarrow> 'args \<Rightarrow> string option) \<Rightarrow> string \<Rightarrow> size_t \<Rightarrow> string \<Rightarrow> 'args \<Rightarrow> (32 word \<times> string) run" where
  "spa_vscnprintf expand buffer sz format args =
     spa_assert (0 < sint sz)
       (let (r, buffer1) = vsnprintf buffer sz (expand format args);
            buffer2 = (if sint r < 0 then buffer1[0 := NUL] else buffer1)
        in if sint r < sint sz then Returned (r, buffer2)
           else Returned (ucast (sz - 1), buffer2))"

definition spa_scnprintf ::
  "(string \<Rightarrow> 'args \<Rightarrow> string option) \<Rightarrow> string \<Rightarrow> size_t \<Rightarrow> string \<Rightarrow> 'args \<Rightarrow> (32 word \<times> string) run" where
  "spa_scnprintf expand buffer sz format args =
     (let r = spa_vscnprintf expand buffer sz format args in r)"

subsection \<open>Numbers as text\<close>

text \<open>
  The header parses numbers and does not print them. The rendering that the round trip
  speaks of is the positional notation of \<^verbatim>\<open>printf\<close>: the digits of the magnitude in the
  base, most significant first, with the lower-case letters for the digits above 9, a
  minus sign before a negative number and, where asked for, the prefix from which base 0
  finds the base again (\<^verbatim>\<open>0x\<close> for 16, \<^verbatim>\<open>0\<close> for 8, none for 10).
\<close>

definition digit_char :: "nat \<Rightarrow> char" where
  "digit_char d = (if d < 10 then char_of (48 + d) else char_of (87 + d))"

function render_digits :: "nat \<Rightarrow> nat \<Rightarrow> string" where
  "render_digits b n =
     (if b < 2 \<or> n < b then [digit_char n]
      else render_digits b (n div b) @ [digit_char (n mod b)])"
  by pat_completeness auto
termination
  by (relation "measure snd") auto

declare render_digits.simps [simp del]

definition render_prefix :: "nat \<Rightarrow> string" where
  "render_prefix b = (if b = 16 then ''0x'' else if b = 8 then ''0'' else [])"

definition render :: "bool \<Rightarrow> nat \<Rightarrow> int \<Rightarrow> string" where
  "render prefixed b v =
     (if v < 0 then ''-'' else []) @ (if prefixed then render_prefix b else []) @
     render_digits b (nat \<bar>v\<bar>)"

subsection \<open>Characters that continue a number\<close>

text \<open>
  A character behind a number is numeric when the syntax of the conversion can go on
  with it; any other character is trailing text. Behind an integer \<open>tok\<close> these are the
  digits of the base in which \<open>tok\<close> is read and, with base 0 or 16, the \<^verbatim>\<open>x\<close> behind
  a lone \<^verbatim>\<open>0\<close>, which may begin a hexadecimal number. Behind a floating-point number
  they follow its form: nothing behind \<^verbatim>\<open>infinity\<close>, the \<^verbatim>\<open>i\<close> of \<^verbatim>\<open>inity\<close> behind
  \<^verbatim>\<open>inf\<close>, the parenthesis behind a bare \<^verbatim>\<open>nan\<close>, and behind digits more digits, the point,
  the letter of the exponent and the \<^verbatim>\<open>x\<close> behind a lone \<^verbatim>\<open>0\<close>.
\<close>

definition extends_integer :: "int \<Rightarrow> string \<Rightarrow> char \<Rightarrow> bool" where
  "extends_integer base tok c \<longleftrightarrow>
     (let t = snd (skip_sign (dropWhile isspace tok))
      in in_base (effective_base base t) c \<or>
         (t = ''0'' \<and> (base = 0 \<or> base = 16) \<and> (c = CHR ''x'' \<or> c = CHR ''X'')))"

definition extends_float :: "string \<Rightarrow> char \<Rightarrow> bool" where
  "extends_float tok c \<longleftrightarrow>
     (let t = snd (skip_sign (dropWhile isspace tok))
      in if starts_with_ci ''infinity'' t then False
         else if starts_with_ci ''inf'' t then tolower c = CHR ''i''
         else if starts_with_ci ''nan'' t then length t = 3 \<and> c = CHR ''(''
         else if starts_with_ci ''0x'' t \<and> scan_mantissa isxdigit (drop 2 t) \<noteq> None
           then isxdigit c \<or> c = CHR ''.'' \<or> tolower c = CHR ''p''
         else isdigit c \<or> c = CHR ''.'' \<or> tolower c = CHR ''e'' \<or>
              (t = ''0'' \<and> tolower c = CHR ''x''))"

section \<open>Properties\<close>

lemma strcmp_eq_0_iff: "strcmp a b = 0 \<longleftrightarrow> a = b"
  by (induction a b rule: strcmp.induct) auto

lemma strncmp_eq_0_iff: "strncmp a b n = 0 \<longleftrightarrow> take n a = take n b"
proof (induction a b n rule: strncmp.induct)
  case (4 x xs y ys n)
  then show ?case by (cases n) auto
qed auto

subsection \<open>Machine integers\<close>

lemma sint_word_of_int_eq:
  "- (2 ^ (LENGTH('a) - 1)) \<le> k \<Longrightarrow> k < 2 ^ (LENGTH('a) - 1) \<Longrightarrow> sint (word_of_int k :: 'a::len word) = k"
  by (simp add: signed_of_int signed_take_bit_int_eq_self)

lemma sint_pos_unat:
  fixes w :: "64 word"
  assumes "0 < sint w"
  shows "sint w = int (unat w)"
proof -
  have u: "0 \<le> uint w" "uint w < 2 ^ 64" using uint_lt2p [of w] by simp_all
  have "sint w = take_bit 64 (uint w + 2 ^ 63) - 2 ^ 63"
    by (simp add: sint_uint signed_take_bit_eq_take_bit_shift)
  then have s: "sint w = (uint w + 2 ^ 63) mod 2 ^ 64 - 2 ^ 63"
    by (simp only: take_bit_eq_mod)
  have "uint w < 2 ^ 63"
  proof (rule ccontr)
    assume a: "\<not> uint w < 2 ^ 63"
    have "(uint w + 2 ^ 63) mod 2 ^ 64 = (uint w + 2 ^ 63 - 2 ^ 64) mod 2 ^ 64"
      by (simp only: minus_mod_self2)
    also have "\<dots> = uint w + 2 ^ 63 - 2 ^ 64"
      using a u by (intro mod_pos_pos_trivial) simp_all
    finally show False using s u assms by simp
  qed
  then have "(uint w + 2 ^ 63) mod 2 ^ 64 = uint w + 2 ^ 63"
    by simp
  with s show ?thesis by simp
qed

lemma sint_word_of_nat_eq:
  assumes "n < 2 ^ (LENGTH('a) - 1)"
  shows "sint (word_of_nat n :: 'a::len word) = int n"
proof -
  have "int n < 2 ^ (LENGTH('a) - 1)"
    using assms by (metis of_nat_less_iff of_nat_numeral of_nat_power)
  moreover have "- (2 ^ (LENGTH('a) - 1)) \<le> int n"
    by (rule order_trans [of _ 0]) simp_all
  ultimately have "sint (word_of_int (int n) :: 'a word) = int n"
    by (rule sint_word_of_int_eq [rotated])
  then show ?thesis by simp
qed

lemma sint_narrow32: "sint (scast (scast v :: 32 word) :: 64 word) = signed_take_bit 31 (sint v)"
  for v :: "64 word"
  by (auto simp add: bit_eq_iff bit_simps min_def)

lemma narrow_i32:
  "(v :: 64 word) = scast (scast v :: 32 word) \<longleftrightarrow> - (2 ^ 31) \<le> sint v \<and> sint v < 2 ^ 31"
proof -
  have "v = scast (scast v :: 32 word) \<longleftrightarrow> sint v = sint (scast (scast v :: 32 word) :: 64 word)"
    by (rule word_eq_iff_signed)
  then show ?thesis
    using signed_take_bit_int_eq_self_iff [of 31 "sint v"] by (auto simp only: sint_narrow32)
qed

lemma uint_narrow32: "uint (ucast (ucast v :: 32 word) :: 64 word) = take_bit 32 (uint v)"
  for v :: "64 word"
  by (auto simp add: bit_eq_iff bit_simps)

lemma narrow_u32: "(v :: 64 word) = ucast (ucast v :: 32 word) \<longleftrightarrow> uint v < 2 ^ 32"
proof -
  have "v = ucast (ucast v :: 32 word) \<longleftrightarrow> uint v = uint (ucast (ucast v :: 32 word) :: 64 word)"
    by (rule word_eq_iff_unsigned)
  then show ?thesis
    using take_bit_int_eq_self_iff [of 32 "uint v"] by (auto simp only: uint_narrow32)
qed

lemma sint_scast_i32:
  "- (2 ^ 31) \<le> sint v \<Longrightarrow> sint v < 2 ^ 31 \<Longrightarrow> sint (scast v :: 32 word) = sint v"
  for v :: "64 word"
  by (simp add: signed_scast_eq signed_take_bit_int_eq_self)

lemma uint_ucast_u32:
  "uint v < 2 ^ 32 \<Longrightarrow> uint (ucast v :: 32 word) = uint v"
  for v :: "64 word"
  by (simp add: unsigned_ucast_eq take_bit_int_eq_self)

lemma spa_atoi32_Some:
  "s \<noteq> [] \<Longrightarrow> spa_atoi32 (Some s) val base =
     (case strtol s base of (v, endptr, err) \<Rightarrow>
        if err = ENONE \<and> endptr = [] \<and> - (2 ^ 31) \<le> sint v \<and> sint v < 2 ^ 31
        then (True, scast v) else (False, val))"
  by (simp only: spa_atoi32_def narrow_i32) (auto split: prod.split)

lemma spa_atou32_Some:
  "s \<noteq> [] \<Longrightarrow> spa_atou32 (Some s) val base =
     (case strtoull s base of (v, endptr, err) \<Rightarrow>
        if err = ENONE \<and> endptr = [] \<and> uint v < 2 ^ 32
        then (True, ucast v) else (False, val))"
  by (simp only: spa_atou32_def narrow_u32) (auto split: prod.split)

lemmas strto_eval = strtol_def strtoll_def strtoull_def bad_base_def strto_magnitude_def
  skip_sign_def isspace_def effective_base_def has_hex_prefix_def strip_prefix_def in_base_def
  digit_value_def isdigit_def islower_def isupper_def

subsection \<open>String equality\<close>

text \<open>
  C8. For every pair of optional strings, \<open>spa_streq\<close> is true when both are absent,
  false when exactly one is absent (an empty string that is present is not equal to an
  absent one), and for two present strings true exactly when their bytes are the same
  over their whole lengths.
\<close>

theorem spa_streq_spec:
  "spa_streq None None \<and>
   \<not> spa_streq None (Some b) \<and>
   \<not> spa_streq (Some a) None \<and>
   \<not> spa_streq (Some []) None \<and>
   \<not> spa_streq None (Some []) \<and>
   (spa_streq (Some a) (Some b) \<longleftrightarrow> a = b)"
  by (simp add: strcmp_eq_0_iff)

theorem spa_streq_spec_witness:
  "spa_streq None None \<and>
   \<not> spa_streq None (Some ''a'') \<and>
   \<not> spa_streq (Some ''ab'') None \<and>
   \<not> spa_streq (Some ''ab'') (Some ''a'') \<and>
   spa_streq (Some ''ab'') (Some ''ab'')"
  using spa_streq_spec [of "''a''" "''ab''"] spa_streq_spec [of "''ab''" "''ab''"]
  by simp

text \<open>
  C9, as the code has it. The absent cases are those of \<open>spa_streq\<close>. Two present
  strings are reported equal exactly when their first \<open>n\<close> bytes agree, where a string
  shorter than \<open>n\<close> takes part with all its bytes and its end. So a string is reported
  equal to a longer one that starts with it when \<open>n\<close> is at most its length, whatever
  follows in the longer one, and unequal when \<open>n\<close> is larger.
\<close>

theorem spa_strneq_spec:
  "spa_strneq None None n \<and>
   \<not> spa_strneq None (Some b) n \<and>
   \<not> spa_strneq (Some a) None n \<and>
   (spa_strneq (Some a) (Some b) n \<longleftrightarrow> take (unat n) a = take (unat n) b) \<and>
   (unat n \<le> length a \<longrightarrow> spa_strneq (Some a) (Some (a @ ext)) n) \<and>
   (length a < unat n \<and> ext \<noteq> [] \<longrightarrow> \<not> spa_strneq (Some a) (Some (a @ ext)) n)"
  by (simp add: strncmp_eq_0_iff)

theorem spa_strneq_spec_witness:
  "unat (2 :: size_t) \<le> length ''ab'' \<and>
   spa_strneq (Some ''ab'') (Some (''ab'' @ ''cd'')) 2 \<and>
   length ''ab'' < unat (3 :: size_t) \<and>
   \<not> spa_strneq (Some ''ab'') (Some (''ab'' @ ''cd'')) 3"
  using spa_strneq_spec [of 2 "''ab''" "''ab''" "''cd''"]
    spa_strneq_spec [of 3 "''ab''" "''ab''" "''cd''"]
  by simp

text \<open>
  The claim C9 as it is written, for every count, fails for a count above the length
  of the shorter string: \<^verbatim>\<open>"ab"\<close> is shorter than \<^verbatim>\<open>"abc"\<close> and is the start of it,
  and with the count 3 the two are reported unequal.
\<close>

theorem spa_strneq_counterexample:
  "length ''ab'' < length ''abc'' \<and> take 2 ''abc'' = ''ab'' \<and>
   \<not> spa_strneq (Some ''ab'') (Some ''abc'') 3"
  by (simp add: strncmp_eq_0_iff)

subsection \<open>Booleans\<close>

text \<open>
  C7. \<open>spa_atob\<close> gives an answer for every input, absent or present, and has no error
  result. It is true exactly for the present strings \<^verbatim>\<open>"true"\<close> and \<^verbatim>\<open>"1"\<close>; the
  absent string, the empty one, \<^verbatim>\<open>"TRUE"\<close>, \<^verbatim>\<open>"yes"\<close> and \<^verbatim>\<open>"0"\<close> give false.
\<close>

theorem spa_atob_spec:
  "(spa_atob str \<longleftrightarrow> str = Some ''true'' \<or> str = Some ''1'') \<and>
   \<not> spa_atob None \<and> \<not> spa_atob (Some []) \<and> \<not> spa_atob (Some ''TRUE'') \<and>
   \<not> spa_atob (Some ''yes'') \<and> \<not> spa_atob (Some ''0'')"
proof -
  have "spa_atob str \<longleftrightarrow> str = Some ''true'' \<or> str = Some ''1''"
    by (cases str) (simp_all add: spa_atob_def strcmp_eq_0_iff)
  moreover have "\<not> spa_atob None" "\<not> spa_atob (Some [])" "\<not> spa_atob (Some ''TRUE'')"
    "\<not> spa_atob (Some ''yes'')" "\<not> spa_atob (Some ''0'')"
    by (simp_all add: spa_atob_def)
  ultimately show ?thesis by simp
qed

theorem spa_atob_spec_witness:
  "spa_atob (Some ''true'') \<and> spa_atob (Some ''1'') \<and> \<not> spa_atob (Some ''true '')"
  using spa_atob_spec [of "Some ''true''"] spa_atob_spec [of "Some ''1''"]
    spa_atob_spec [of "Some ''true ''"]
  by simp

subsection \<open>Rendered numbers are read back\<close>

lemma of_char_digit_char: "d < 36 \<Longrightarrow> (of_char (digit_char d) :: nat) = (if d < 10 then 48 + d else 87 + d)"
  by (simp add: digit_char_def)

lemma digit_value_digit_char: "d < 36 \<Longrightarrow> digit_value (digit_char d) = Some d"
  by (auto simp add: digit_value_def isdigit_def islower_def isupper_def of_char_digit_char)

lemma in_base_digit_char: "d < b \<Longrightarrow> b \<le> 36 \<Longrightarrow> in_base b (digit_char d)"
  by (simp add: in_base_def digit_value_digit_char)

lemma render_digits_in_base:
  "2 \<le> b \<Longrightarrow> b \<le> 36 \<Longrightarrow> c \<in> set (render_digits b n) \<Longrightarrow> in_base b c"
proof (induction b n rule: render_digits.induct)
  case (1 b n)
  show ?case
  proof (cases "n < b")
    case True
    with 1 show ?thesis by (simp add: render_digits.simps [of b n] in_base_digit_char)
  next
    case False
    with 1 show ?thesis
      by (auto simp add: render_digits.simps [of b n] in_base_digit_char)
  qed
qed

lemma digits_value_append:
  "digits_value b acc (xs @ ys) = digits_value b (digits_value b acc xs) ys"
  by (induction xs arbitrary: acc) simp_all

lemma digits_value_render_digits:
  "2 \<le> b \<Longrightarrow> b \<le> 36 \<Longrightarrow> digits_value b 0 (render_digits b n) = n"
proof (induction b n rule: render_digits.induct)
  case (1 b n)
  show ?case
  proof (cases "n < b")
    case True
    with 1 show ?thesis by (simp add: render_digits.simps [of b n] digit_value_digit_char)
  next
    case False
    with 1 have "n mod b < 36" by (meson less_le_trans mod_less_divisor not_less zero_less_numeral less_le_trans [of 0 2 b])
    with False 1 show ?thesis
      by (simp add: render_digits.simps [of b n] digits_value_append digit_value_digit_char)
  qed
qed

lemma render_digits_head:
  "2 \<le> b \<Longrightarrow> \<exists>d cs. render_digits b n = digit_char d # cs \<and> d < b \<and> (d = 0 \<longrightarrow> cs = [] \<and> n = 0)"
proof (induction b n rule: render_digits.induct)
  case (1 b n)
  show ?case
  proof (cases "n < b")
    case True
    with 1 have "render_digits b n = digit_char n # [] \<and> n < b \<and> (n = 0 \<longrightarrow> [] = ([] :: string) \<and> n = 0)"
      by (simp add: render_digits.simps [of b n])
    then show ?thesis by blast
  next
    case False
    with 1 obtain d cs where "render_digits b (n div b) = digit_char d # cs" "d < b"
      "d = 0 \<longrightarrow> cs = [] \<and> n div b = 0"
      by auto
    moreover have "0 < n div b" using False 1 by (simp add: div_greater_zero_iff)
    ultimately show ?thesis using False 1
      by (simp add: render_digits.simps [of b n])
  qed
qed

lemma digit_char_neq:
  assumes "d < 36"
  shows "\<not> isspace (digit_char d)" "digit_char d \<noteq> CHR ''-''" "digit_char d \<noteq> CHR ''+''"
    "digit_char d = CHR ''0'' \<longleftrightarrow> d = 0"
    "d < 16 \<Longrightarrow> digit_char d \<noteq> CHR ''x''" "digit_char d \<noteq> CHR ''X''"
proof -
  have v: "(of_char (digit_char d) :: nat) = (if d < 10 then 48 + d else 87 + d)"
    using assms by (rule of_char_digit_char)
  have e: "\<And>c. digit_char d = c \<longleftrightarrow> (of_char (digit_char d) :: nat) = of_char c"
    by simp
  show "\<not> isspace (digit_char d)"
    unfolding isspace_def e v by simp
  show "digit_char d \<noteq> CHR ''-''" "digit_char d \<noteq> CHR ''+''" "digit_char d \<noteq> CHR ''X''"
    unfolding e v by simp_all
  show "digit_char d = CHR ''0'' \<longleftrightarrow> d = 0"
    unfolding e v by simp
  show "d < 16 \<Longrightarrow> digit_char d \<noteq> CHR ''x''"
    unfolding e v by simp
qed

lemma takeWhile_all: "\<forall>c\<in>set xs. P c \<Longrightarrow> takeWhile P xs = xs"
  by (induction xs) simp_all

lemma dropWhile_all: "\<forall>c\<in>set xs. P c \<Longrightarrow> dropWhile P xs = []"
  by (induction xs) simp_all

lemma strto_magnitude_digits:
  assumes "t = c # cs" and "\<not> isspace c" and "c \<noteq> CHR ''-''" and "c \<noteq> CHR ''+''"
    and "effective_base base t = b" and "strip_prefix base t = ds" and "ds \<noteq> []"
    and "\<forall>c\<in>set ds. in_base b c"
  shows "strto_magnitude t base = Some (False, digits_value b 0 ds, [])"
    and "strto_magnitude (CHR ''-'' # t) base = Some (True, digits_value b 0 ds, [])"
proof -
  have sp: "\<not> isspace CHR ''-''" by (simp add: isspace_def)
  have "dropWhile isspace t = t" "skip_sign t = (False, t)"
    using assms(1-4) by (simp_all add: skip_sign_def)
  then show "strto_magnitude t base = Some (False, digits_value b 0 ds, [])"
    using assms(5-8) by (simp add: strto_magnitude_def takeWhile_all dropWhile_all)
  have "dropWhile isspace (CHR ''-'' # t) = CHR ''-'' # t" "skip_sign (CHR ''-'' # t) = (True, t)"
    using sp by (simp_all add: skip_sign_def)
  then show "strto_magnitude (CHR ''-'' # t) base = Some (True, digits_value b 0 ds, [])"
    using assms(5-8) by (simp add: strto_magnitude_def takeWhile_all dropWhile_all)
qed

lemma render_digits_plain:
  assumes "2 \<le> b" "b \<le> 36"
  shows "\<exists>c cs. render_digits b n = c # cs \<and> \<not> isspace c \<and> c \<noteq> CHR ''-'' \<and> c \<noteq> CHR ''+'' \<and>
           (c = CHR ''0'' \<longrightarrow> cs = [] \<and> n = 0)"
proof -
  obtain d cs where r: "render_digits b n = digit_char d # cs" "d < b" "d = 0 \<longrightarrow> cs = [] \<and> n = 0"
    using render_digits_head [OF assms(1), of n] by blast
  then have "d < 36" using assms(2) by simp
  then show ?thesis using r digit_char_neq [of d] by simp
qed

lemma render_cases:
  "render prefixed b v =
     (if v < 0 then CHR ''-'' # (if prefixed then render_prefix b else []) @ render_digits b (nat \<bar>v\<bar>)
      else (if prefixed then render_prefix b else []) @ render_digits b (nat \<bar>v\<bar>))"
  by (simp add: render_def)

lemma strto_magnitude_plain:
  assumes "2 \<le> b" "b \<le> 36"
  shows "strto_magnitude (render_digits b n) (int b) = Some (False, n, [])"
    and "strto_magnitude (CHR ''-'' # render_digits b n) (int b) = Some (True, n, [])"
proof -
  let ?t = "render_digits b n"
  obtain c cs where r: "?t = c # cs" "\<not> isspace c" "c \<noteq> CHR ''-''" "c \<noteq> CHR ''+''"
      "c = CHR ''0'' \<longrightarrow> cs = [] \<and> n = 0"
    using render_digits_plain [OF assms, of n] by blast
  have nh: "\<not> has_hex_prefix (int b) ?t"
    using r(1,5) by (auto simp add: has_hex_prefix_def split: list.splits)
  have eb: "effective_base (int b) ?t = b"
    using nh assms(1) by (simp add: effective_base_def)
  have sp: "strip_prefix (int b) ?t = ?t"
    using nh by (simp add: strip_prefix_def)
  have ne: "?t \<noteq> []" using r(1) by simp
  have ib: "\<forall>c\<in>set ?t. in_base b c"
    using render_digits_in_base [OF assms] by blast
  note m = strto_magnitude_digits [OF r(1-4) eb sp ne ib]
  show "strto_magnitude ?t (int b) = Some (False, n, [])"
    and "strto_magnitude (CHR ''-'' # ?t) (int b) = Some (True, n, [])"
    using m by (simp_all add: digits_value_render_digits [OF assms])
qed

lemma strto_magnitude_hex:
  assumes "base = 0 \<or> base = 16"
  shows "strto_magnitude (''0x'' @ render_digits 16 n) base = Some (False, n, [])"
    and "strto_magnitude (CHR ''-'' # ''0x'' @ render_digits 16 n) base = Some (True, n, [])"
proof -
  have b: "(2::nat) \<le> 16" "(16::nat) \<le> 36" by simp_all
  let ?ds = "render_digits 16 n"
  let ?t = "''0x'' @ ?ds"
  obtain d cs where h: "?ds = digit_char d # cs" "d < 16"
    using render_digits_head [OF b(1), of n] by blast
  have ib: "\<forall>c\<in>set ?ds. in_base 16 c"
    using render_digits_in_base [OF b] by blast
  then have "in_base 16 (digit_char d)" using h(1) by simp
  then have hp: "has_hex_prefix base ?t"
    using assms h(1) by (simp add: has_hex_prefix_def)
  have t: "?t = CHR ''0'' # (CHR ''x'' # ?ds)" by simp
  have c: "\<not> isspace CHR ''0''" "CHR ''0'' \<noteq> CHR ''-''" "CHR ''0'' \<noteq> CHR ''+''"
    by (simp_all add: isspace_def)
  have eb: "effective_base base ?t = 16"
    using hp by (simp add: effective_base_def)
  have sp: "strip_prefix base ?t = ?ds"
    using hp by (simp add: strip_prefix_def)
  have ne: "?ds \<noteq> []" using h(1) by simp
  note m = strto_magnitude_digits [OF t c eb sp ne ib]
  show "strto_magnitude ?t base = Some (False, n, [])"
    and "strto_magnitude (CHR ''-'' # ?t) base = Some (True, n, [])"
    using m by (simp_all add: digits_value_render_digits [OF b])
qed

lemma strto_magnitude_oct:
  shows "strto_magnitude (''0'' @ render_digits 8 n) 0 = Some (False, n, [])"
    and "strto_magnitude (CHR ''-'' # ''0'' @ render_digits 8 n) 0 = Some (True, n, [])"
proof -
  have b: "(2::nat) \<le> 8" "(8::nat) \<le> 36" by simp_all
  let ?ds = "render_digits 8 n"
  let ?t = "''0'' @ ?ds"
  obtain d cs where h: "?ds = digit_char d # cs" "d < 8"
    using render_digits_head [OF b(1), of n] by blast
  have ib: "\<forall>c\<in>set ?ds. in_base 8 c"
    using render_digits_in_base [OF b] by blast
  have "digit_char d \<noteq> CHR ''x''" "digit_char d \<noteq> CHR ''X''"
    using h(2) digit_char_neq(5,6) [of d] by simp_all
  then have hp: "\<not> has_hex_prefix 0 ?t"
    using h(1) by (simp add: has_hex_prefix_def split: list.splits)
  have t: "?t = CHR ''0'' # ?ds" by simp
  have c: "\<not> isspace CHR ''0''" "CHR ''0'' \<noteq> CHR ''-''" "CHR ''0'' \<noteq> CHR ''+''"
    by (simp_all add: isspace_def)
  have eb: "effective_base 0 ?t = 8"
    using hp by (simp add: effective_base_def)
  have sp: "strip_prefix 0 ?t = ?t"
    using hp by (simp add: strip_prefix_def)
  have z: "digit_value CHR ''0'' = Some 0"
    by (simp add: digit_value_def isdigit_def)
  have ne: "?t \<noteq> []" by simp
  have ib': "\<forall>c\<in>set ?t. in_base 8 c"
    using ib z by (simp add: in_base_def)
  note m = strto_magnitude_digits [OF t c eb sp ne ib']
  show "strto_magnitude ?t 0 = Some (False, n, [])"
    and "strto_magnitude (CHR ''-'' # ?t) 0 = Some (True, n, [])"
    using m z digits_value_render_digits [OF b, of n] by simp_all
qed

lemma strto_magnitude_dec:
  shows "strto_magnitude (render_digits 10 n) 0 = Some (False, n, [])"
    and "strto_magnitude (CHR ''-'' # render_digits 10 n) 0 = Some (True, n, [])"
proof -
  have b: "(2::nat) \<le> 10" "(10::nat) \<le> 36" by simp_all
  let ?t = "render_digits 10 n"
  obtain c cs where r: "?t = c # cs" "\<not> isspace c" "c \<noteq> CHR ''-''" "c \<noteq> CHR ''+''"
      "c = CHR ''0'' \<longrightarrow> cs = [] \<and> n = 0"
    using render_digits_plain [OF b, of n] by blast
  have nh: "\<not> has_hex_prefix 0 ?t"
    using r(1,5) by (auto simp add: has_hex_prefix_def split: list.splits)
  have sp: "strip_prefix 0 ?t = ?t"
    using nh by (simp add: strip_prefix_def)
  have ne: "?t \<noteq> []" using r(1) by simp
  have z: "digit_value CHR ''0'' = Some 0"
    by (simp add: digit_value_def isdigit_def)
  show "strto_magnitude ?t 0 = Some (False, n, [])"
    and "strto_magnitude (CHR ''-'' # ?t) 0 = Some (True, n, [])"
  proof (atomize (full), cases "c = CHR ''0''")
    case True
    then have t0: "?t = ''0''" "n = 0" using r(1,5) by simp_all
    have eb: "effective_base 0 ?t = 8"
      using nh t0 by (simp add: effective_base_def)
    have ib: "\<forall>c\<in>set ?t. in_base 8 c"
      using t0 z by (simp add: in_base_def)
    have v: "digits_value 8 0 ?t = n"
      unfolding t0(1) using z t0(2) by simp
    note m = strto_magnitude_digits [OF r(1-4) eb sp ne ib]
    show "strto_magnitude ?t 0 = Some (False, n, []) \<and>
        strto_magnitude (CHR ''-'' # ?t) 0 = Some (True, n, [])"
      using m unfolding v by simp
  next
    case False
    have eb: "effective_base 0 ?t = 10"
      using nh False r(1) by (simp add: effective_base_def)
    have ib: "\<forall>c\<in>set ?t. in_base 10 c"
      using render_digits_in_base [OF b] by blast
    note m = strto_magnitude_digits [OF r(1-4) eb sp ne ib]
    show "strto_magnitude ?t 0 = Some (False, n, []) \<and>
        strto_magnitude (CHR ''-'' # ?t) 0 = Some (True, n, [])"
      using m by (simp add: digits_value_render_digits [OF b])
  qed
qed

lemma strto_magnitude_render:
  "2 \<le> b \<Longrightarrow> b \<le> 36 \<Longrightarrow>
     strto_magnitude (render False b v) (int b) = Some (v < 0, nat \<bar>v\<bar>, [])"
  "b = 8 \<or> b = 10 \<or> b = 16 \<Longrightarrow>
     strto_magnitude (render True b v) 0 = Some (v < 0, nat \<bar>v\<bar>, [])"
  "strto_magnitude (render True 16 v) 16 = Some (v < 0, nat \<bar>v\<bar>, [])"
  unfolding render_cases
  using strto_magnitude_plain [of b "nat \<bar>v\<bar>"] strto_magnitude_hex [of 0 "nat \<bar>v\<bar>"]
    strto_magnitude_hex [of 16 "nat \<bar>v\<bar>"] strto_magnitude_oct [of "nat \<bar>v\<bar>"]
    strto_magnitude_dec [of "nat \<bar>v\<bar>"]
  by (auto simp add: render_prefix_def simp del: abs_if)

lemma render_not_Nil: "render prefixed b v \<noteq> []"
  by (simp add: render_def render_digits.simps [of b])

lemma strtoll_exact:
  assumes "\<not> bad_base base" and "strto_magnitude s base = Some (v < 0, nat \<bar>v\<bar>, [])"
    and "- (2 ^ 63) \<le> v" and "v < 2 ^ 63"
  shows "strtoll s base = (word_of_int v, [], ENONE)"
proof -
  have "(if v < 0 then - int (nat \<bar>v\<bar>) else int (nat \<bar>v\<bar>)) = v"
    by simp
  then show ?thesis
    using assms by (simp add: strtoll_def Let_def del: abs_if)
qed

lemma strtoull_exact:
  assumes "\<not> bad_base base" and "strto_magnitude s base = Some (neg, nat m, [])"
    and "0 \<le> m" and "m < 2 ^ 64"
  shows "strtoull s base = (if neg then - word_of_int m else word_of_int m, [], ENONE)"
proof -
  have "int (nat m) < 2 ^ 64" using assms(3,4) by simp
  then have "nat m < 2 ^ 64" 
    by (metis of_nat_less_iff of_nat_numeral of_nat_power)
  then have "\<not> 2 ^ 64 - 1 < nat m" by simp
  moreover have "(word_of_nat (nat m) :: 64 word) = word_of_int m"
    using assms(3) by (metis of_nat_nat of_int_of_nat_eq) 
  ultimately show ?thesis
    using assms(1,2) by (simp add: strtoull_def)
qed

lemma sint64_word_of_int:
  "- (2 ^ 63) \<le> v \<Longrightarrow> v < 2 ^ 63 \<Longrightarrow> sint (word_of_int v :: 64 word) = v"
  using sint_word_of_int_eq [of v, where 'a = 64] by simp

lemma sint32_word_of_int:
  "- (2 ^ 31) \<le> v \<Longrightarrow> v < 2 ^ 31 \<Longrightarrow> sint (word_of_int v :: 32 word) = v"
  using sint_word_of_int_eq [of v, where 'a = 32] by simp

lemma uint64_word_of_int:
  "0 \<le> v \<Longrightarrow> v < 2 ^ 64 \<Longrightarrow> uint (word_of_int v :: 64 word) = v"
  by (simp add: uint_word_of_int_eq take_bit_int_eq_self)

lemma uint32_word_of_int:
  "0 \<le> v \<Longrightarrow> v < 2 ^ 32 \<Longrightarrow> uint (word_of_int v :: 32 word) = v"
  by (simp add: uint_word_of_int_eq take_bit_int_eq_self)

lemma scast_word_of_int: "(scast (word_of_int v :: 64 word) :: 32 word) = word_of_int v"
  by (rule bit_word_eqI) (auto simp add: bit_simps)

lemma ucast_word_of_int: "(ucast (word_of_int v :: 64 word) :: 32 word) = word_of_int v"
  by (rule bit_word_eqI) (auto simp add: bit_simps)

lemma spa_atoi64_exact:
  assumes "\<not> bad_base base" and "s \<noteq> []" and "strto_magnitude s base = Some (v < 0, nat \<bar>v\<bar>, [])"
    and "- (2 ^ 63) \<le> v" and "v < 2 ^ 63"
  shows "spa_atoi64 (Some s) val base = (True, word_of_int v)"
  using assms(2) strtoll_exact [OF assms(1,3,4,5)] by (simp add: spa_atoi64_def)

lemma spa_atoi32_exact:
  assumes "\<not> bad_base base" and "s \<noteq> []" and "strto_magnitude s base = Some (v < 0, nat \<bar>v\<bar>, [])"
    and "- (2 ^ 31) \<le> v" and "v < 2 ^ 31"
  shows "spa_atoi32 (Some s) val base = (True, word_of_int v)"
proof -
  have r: "- (2 ^ 63) \<le> v" "v < 2 ^ 63" using assms(4,5) by simp_all
  have "strtol s base = (word_of_int v, [], ENONE)"
    using strtoll_exact [OF assms(1,3) r] by (simp add: strtol_def)
  then show ?thesis
    using assms(2,4,5) sint64_word_of_int [OF r]
    by (simp add: spa_atoi32_Some scast_word_of_int)
qed

lemma spa_atou64_exact:
  assumes "\<not> bad_base base" and "s \<noteq> []" and "strto_magnitude s base = Some (neg, nat m, [])"
    and "0 \<le> m" and "m < 2 ^ 64"
  shows "spa_atou64 (Some s) val base = (True, if neg then - word_of_int m else word_of_int m)"
  using assms(2) strtoull_exact [OF assms(1,3,4,5)] by (simp add: spa_atou64_def)

lemma spa_atou32_exact:
  assumes "\<not> bad_base base" and "s \<noteq> []" and "strto_magnitude s base = Some (False, nat m, [])"
    and "0 \<le> m" and "m < 2 ^ 32"
  shows "spa_atou32 (Some s) val base = (True, word_of_int m)"
proof -
  have r: "m < 2 ^ 64" using assms(5) by simp
  have "strtoull s base = (word_of_int m, [], ENONE)"
    using strtoull_exact [OF assms(1,3,4) r] by simp
  then show ?thesis
    using assms(2,4,5) uint64_word_of_int [OF assms(4) r]
    by (simp add: spa_atou32_Some ucast_word_of_int)
qed

lemma good_base: "2 \<le> b \<Longrightarrow> b \<le> 36 \<Longrightarrow> \<not> bad_base (int b)" "\<not> bad_base 0" "\<not> bad_base 16"
  by (simp_all add: bad_base_def)

lemma roundtrip_plain:
  assumes "2 \<le> b" "b \<le> 36"
  shows "- (2 ^ 31) \<le> v \<Longrightarrow> v < 2 ^ 31 \<Longrightarrow>
           spa_atoi32 (Some (render False b v)) old32 (int b) = (True, word_of_int v)"
    and "0 \<le> v \<Longrightarrow> v < 2 ^ 32 \<Longrightarrow>
           spa_atou32 (Some (render False b v)) old32 (int b) = (True, word_of_int v)"
    and "- (2 ^ 63) \<le> v \<Longrightarrow> v < 2 ^ 63 \<Longrightarrow>
           spa_atoi64 (Some (render False b v)) old64 (int b) = (True, word_of_int v)"
    and "0 \<le> v \<Longrightarrow> v < 2 ^ 64 \<Longrightarrow>
           spa_atou64 (Some (render False b v)) old64 (int b) = (True, word_of_int v)"
proof -
  note g = good_base(1) [OF assms]
  note m = strto_magnitude_render(1) [OF assms, of v]
  show "- (2 ^ 31) \<le> v \<Longrightarrow> v < 2 ^ 31 \<Longrightarrow>
           spa_atoi32 (Some (render False b v)) old32 (int b) = (True, word_of_int v)"
    by (rule spa_atoi32_exact [OF g render_not_Nil m])
  show "- (2 ^ 63) \<le> v \<Longrightarrow> v < 2 ^ 63 \<Longrightarrow>
           spa_atoi64 (Some (render False b v)) old64 (int b) = (True, word_of_int v)"
    by (rule spa_atoi64_exact [OF g render_not_Nil m])
  show "spa_atou32 (Some (render False b v)) old32 (int b) = (True, word_of_int v)"
    if "0 \<le> v" "v < 2 ^ 32"
  proof -
    have "strto_magnitude (render False b v) (int b) = Some (False, nat v, [])"
      using m that(1) by simp
    then show ?thesis
      using that by (rule spa_atou32_exact [OF g render_not_Nil])
  qed
  show "spa_atou64 (Some (render False b v)) old64 (int b) = (True, word_of_int v)"
    if "0 \<le> v" "v < 2 ^ 64"
  proof -
    have mm: "strto_magnitude (render False b v) (int b) = Some (False, nat v, [])"
      using m that(1) by simp
    show ?thesis
      using spa_atou64_exact [OF g render_not_Nil mm that] by simp
  qed
qed

lemma roundtrip_prefixed:
  assumes "b = 8 \<or> b = 10 \<or> b = 16"
  shows "- (2 ^ 31) \<le> v \<Longrightarrow> v < 2 ^ 31 \<Longrightarrow>
           spa_atoi32 (Some (render True b v)) old32 0 = (True, word_of_int v)"
    and "0 \<le> v \<Longrightarrow> v < 2 ^ 32 \<Longrightarrow>
           spa_atou32 (Some (render True b v)) old32 0 = (True, word_of_int v)"
    and "- (2 ^ 63) \<le> v \<Longrightarrow> v < 2 ^ 63 \<Longrightarrow>
           spa_atoi64 (Some (render True b v)) old64 0 = (True, word_of_int v)"
    and "0 \<le> v \<Longrightarrow> v < 2 ^ 64 \<Longrightarrow>
           spa_atou64 (Some (render True b v)) old64 0 = (True, word_of_int v)"
proof -
  note g = good_base(2)
  note m = strto_magnitude_render(2) [OF assms, of v]
  show "- (2 ^ 31) \<le> v \<Longrightarrow> v < 2 ^ 31 \<Longrightarrow>
           spa_atoi32 (Some (render True b v)) old32 0 = (True, word_of_int v)"
    by (rule spa_atoi32_exact [OF g render_not_Nil m])
  show "- (2 ^ 63) \<le> v \<Longrightarrow> v < 2 ^ 63 \<Longrightarrow>
           spa_atoi64 (Some (render True b v)) old64 0 = (True, word_of_int v)"
    by (rule spa_atoi64_exact [OF g render_not_Nil m])
  show "spa_atou32 (Some (render True b v)) old32 0 = (True, word_of_int v)"
    if "0 \<le> v" "v < 2 ^ 32"
  proof -
    have "strto_magnitude (render True b v) 0 = Some (False, nat v, [])"
      using m that(1) by simp
    then show ?thesis
      using that by (rule spa_atou32_exact [OF g render_not_Nil])
  qed
  show "spa_atou64 (Some (render True b v)) old64 0 = (True, word_of_int v)"
    if "0 \<le> v" "v < 2 ^ 64"
  proof -
    have mm: "strto_magnitude (render True b v) 0 = Some (False, nat v, [])"
      using m that(1) by simp
    show ?thesis
      using spa_atou64_exact [OF g render_not_Nil mm that] by simp
  qed
qed

lemmas render_eval = render_def render_prefix_def render_digits.simps digit_char_def char_of_def
  bit_Suc_0_iff

subsection \<open>Text behind a number\<close>

lemma takeWhile_stop: "\<not> P c \<Longrightarrow> takeWhile P (xs @ c # ys) = takeWhile P xs"
  by (induction xs) simp_all

lemma dropWhile_stop: "\<not> P c \<Longrightarrow> dropWhile P (xs @ c # ys) = dropWhile P xs @ c # ys"
  by (induction xs) simp_all

lemma dropWhile_append_keep:
  assumes "dropWhile P xs \<noteq> []"
  shows "dropWhile P (xs @ ys) = dropWhile P xs @ ys"
  using assms by (induction xs) (simp_all split: if_splits)

lemma skip_sign_append:
  "snd (skip_sign u) \<noteq> [] \<Longrightarrow> skip_sign (u @ ys) = (fst (skip_sign u), snd (skip_sign u) @ ys)"
  by (cases u) (simp_all add: skip_sign_def)

lemma front_append:
  assumes "snd (skip_sign (dropWhile isspace tok)) \<noteq> []"
  shows "skip_sign (dropWhile isspace (tok @ ys)) =
    (fst (skip_sign (dropWhile isspace tok)), snd (skip_sign (dropWhile isspace tok)) @ ys)"
proof -
  have "dropWhile isspace tok \<noteq> []"
    using assms by (cases "dropWhile isspace tok") (simp_all add: skip_sign_def)
  then have "dropWhile isspace (tok @ ys) = dropWhile isspace tok @ ys"
    by (rule dropWhile_append_keep)
  then show ?thesis
    using assms by (simp add: skip_sign_append)
qed

lemma not_in_base_x: "\<not> in_base 8 CHR ''x''" "\<not> in_base 16 CHR ''x''" "\<not> in_base 8 CHR ''X''"
  "\<not> in_base 16 CHR ''X''" "in_base 8 CHR ''0''" "in_base 16 CHR ''0''"
  by (simp_all add: in_base_def digit_value_def isdigit_def islower_def isupper_def)

lemma has_hex_prefix_trailing:
  assumes "t \<noteq> []"
    and tk: "takeWhile (in_base (effective_base base t)) (strip_prefix base t) \<noteq> []"
      "dropWhile (in_base (effective_base base t)) (strip_prefix base t) = []"
    and nx: "\<not> (t = ''0'' \<and> (base = 0 \<or> base = 16) \<and> (c = CHR ''x'' \<or> c = CHR ''X''))"
  shows "has_hex_prefix base (t @ c # rest) = has_hex_prefix base t"
proof (cases t)
  case Nil
  with assms(1) show ?thesis by simp
next
  case (Cons a q)
  note t1 = Cons
  show ?thesis
  proof (cases q)
    case Nil
    then show ?thesis
      using t1 nx by (auto simp add: has_hex_prefix_def split: list.splits)
  next
    case (Cons a1 q1)
    note t2 = Cons
    show ?thesis
    proof (cases q1)
      case Nil
      have "\<not> ((base = 0 \<or> base = 16) \<and> a = CHR ''0'' \<and> (a1 = CHR ''x'' \<or> a1 = CHR ''X''))"
      proof
        assume h: "(base = 0 \<or> base = 16) \<and> a = CHR ''0'' \<and> (a1 = CHR ''x'' \<or> a1 = CHR ''X'')"
        have nh: "\<not> has_hex_prefix base t"
          using t1 t2 Nil by (simp add: has_hex_prefix_def)
        have "effective_base base t = 8 \<or> effective_base base t = 16"
          using nh h t1 by (auto simp add: effective_base_def)
        then have "dropWhile (in_base (effective_base base t)) t = [a1]"
          using h t1 t2 Nil not_in_base_x by auto
        then show False
          using tk(2) nh by (simp add: strip_prefix_def)
      qed
      then show ?thesis
        using t1 t2 Nil by (auto simp add: has_hex_prefix_def)
    next
      case (Cons a2 q2)
      then show ?thesis
        using t1 t2 by (simp add: has_hex_prefix_def)
    qed
  qed
qed

lemma strto_magnitude_trailing:
  assumes "strto_magnitude tok base = Some (neg, m, [])" and "\<not> extends_integer base tok c"
  shows "strto_magnitude (tok @ c # rest) base = Some (neg, m, c # rest)"
proof -
  define t where "t = snd (skip_sign (dropWhile isspace tok))"
  define b where "b = effective_base base t"
  have sk: "skip_sign (dropWhile isspace tok) = (fst (skip_sign (dropWhile isspace tok)), t)"
    by (simp add: t_def)
  have tk: "takeWhile (in_base b) (strip_prefix base t) \<noteq> []"
    and dk: "dropWhile (in_base b) (strip_prefix base t) = []"
    and ng: "neg = fst (skip_sign (dropWhile isspace tok))"
    and mv: "m = digits_value b 0 (takeWhile (in_base b) (strip_prefix base t))"
    using assms(1) unfolding strto_magnitude_def b_def t_def
    by (auto simp add: Let_def split: prod.splits if_splits)
  have tne: "t \<noteq> []"
    using tk by (auto simp add: strip_prefix_def split: if_splits)
  have nb: "\<not> in_base b c"
    and nx: "\<not> (t = ''0'' \<and> (base = 0 \<or> base = 16) \<and> (c = CHR ''x'' \<or> c = CHR ''X''))"
    using assms(2) unfolding extends_integer_def b_def t_def by (simp_all add: Let_def)
  have fr: "skip_sign (dropWhile isspace (tok @ c # rest)) = (neg, t @ c # rest)"
    using front_append [of tok "c # rest"] tne ng unfolding t_def by simp
  have hp: "has_hex_prefix base (t @ c # rest) = has_hex_prefix base t"
    using tne tk dk nx unfolding b_def by (rule has_hex_prefix_trailing)
  have eb: "effective_base base (t @ c # rest) = b"
    using hp tne unfolding b_def effective_base_def by (cases t) simp_all
  have "has_hex_prefix base t \<Longrightarrow> 2 \<le> length t"
    by (auto simp add: has_hex_prefix_def split: list.splits)
  then have sp: "strip_prefix base (t @ c # rest) = strip_prefix base t @ c # rest"
    using hp by (simp add: strip_prefix_def)
  have all: "takeWhile (in_base b) (strip_prefix base t) = strip_prefix base t"
    using dk by (metis takeWhile_dropWhile_id append_Nil2)
  have t2: "takeWhile (in_base b) (strip_prefix base t @ c # rest) = strip_prefix base t"
    using nb all by (simp add: takeWhile_stop)
  have d2: "dropWhile (in_base b) (strip_prefix base t @ c # rest) = c # rest"
    using nb dk by (simp add: dropWhile_stop)
  show ?thesis
    using tk mv all
    by (simp add: strto_magnitude_def fr eb sp t2 d2)
qed

lemma strtoll_accepts:
  assumes "s \<noteq> []" and "strtoll s base = (v, [], ENONE)"
  shows "\<exists>neg m. strto_magnitude s base = Some (neg, m, [])"
  using assms
  by (auto simp add: strtoll_def Let_def split: if_splits option.splits)

lemma strtoull_accepts:
  assumes "s \<noteq> []" and "strtoull s base = (v, [], ENONE)"
  shows "\<exists>neg m. strto_magnitude s base = Some (neg, m, [])"
  using assms
  by (auto simp add: strtoull_def split: if_splits option.splits)

lemma strtoll_rejects:
  assumes "strto_magnitude s base = Some (neg, m, c # rest)"
  shows "snd (strtoll s base) \<noteq> ([], ENONE)"
  using assms by (simp add: strtoll_def Let_def)

lemma strtoull_rejects:
  assumes "strto_magnitude s base = Some (neg, m, c # rest)"
  shows "snd (strtoull s base) \<noteq> ([], ENONE)"
  using assms by (simp add: strtoull_def)

lemma spa_atoi32_accepts:
  "fst (spa_atoi32 (Some tok) val base) \<Longrightarrow> \<exists>neg m. strto_magnitude tok base = Some (neg, m, [])"
  by (cases "tok = []")
    (auto simp add: spa_atoi32_def strtol_def split: prod.splits if_splits dest: strtoll_accepts)

lemma spa_atoi64_accepts:
  "fst (spa_atoi64 (Some tok) val base) \<Longrightarrow> \<exists>neg m. strto_magnitude tok base = Some (neg, m, [])"
  by (cases "tok = []")
    (auto simp add: spa_atoi64_def split: prod.splits if_splits dest: strtoll_accepts)

lemma spa_atou32_accepts:
  "fst (spa_atou32 (Some tok) val base) \<Longrightarrow> \<exists>neg m. strto_magnitude tok base = Some (neg, m, [])"
  by (cases "tok = []")
    (auto simp add: spa_atou32_def split: prod.splits if_splits dest: strtoull_accepts)

lemma spa_atou64_accepts:
  "fst (spa_atou64 (Some tok) val base) \<Longrightarrow> \<exists>neg m. strto_magnitude tok base = Some (neg, m, [])"
  by (cases "tok = []")
    (auto simp add: spa_atou64_def split: prod.splits if_splits dest: strtoull_accepts)

lemma spa_ato_rejects:
  assumes "strto_magnitude s base = Some (neg, m, c # rest)"
  shows "spa_atoi32 (Some s) v32 base = (False, v32)" "spa_atou32 (Some s) u32 base = (False, u32)"
    "spa_atoi64 (Some s) v64 base = (False, v64)" "spa_atou64 (Some s) u64 base = (False, u64)"
  using strtoll_rejects [OF assms] strtoull_rejects [OF assms]
  by (auto simp add: spa_atoi32_def spa_atou32_def spa_atoi64_def spa_atou64_def strtol_def
      split: prod.splits)

lemma integer_trailing:
  assumes "\<not> extends_integer base tok c"
  shows "fst (spa_atoi32 (Some tok) v32 base) \<Longrightarrow>
           spa_atoi32 (Some (tok @ c # rest)) v32 base = (False, v32)"
    and "fst (spa_atou32 (Some tok) u32 base) \<Longrightarrow>
           spa_atou32 (Some (tok @ c # rest)) u32 base = (False, u32)"
    and "fst (spa_atoi64 (Some tok) v64 base) \<Longrightarrow>
           spa_atoi64 (Some (tok @ c # rest)) v64 base = (False, v64)"
    and "fst (spa_atou64 (Some tok) u64 base) \<Longrightarrow>
           spa_atou64 (Some (tok @ c # rest)) u64 base = (False, u64)"
  using assms
  by (blast dest: spa_atoi32_accepts spa_atou32_accepts spa_atoi64_accepts spa_atou64_accepts
      strto_magnitude_trailing intro: spa_ato_rejects)+

lemma starts_with_ci_append:
  "length w \<le> length t \<Longrightarrow> starts_with_ci w (t @ ys) = starts_with_ci w t"
  by (simp add: starts_with_ci_def)

lemma starts_with_ci_next:
  assumes "starts_with_ci w (t @ c # ys)" and "length t < length w"
  shows "tolower c = w ! length t"
proof -
  have "map tolower (take (length w) (t @ c # ys)) ! length t = w ! length t"
    using assms(1) by (simp add: starts_with_ci_def)
  moreover have "length t < length (take (length w) (t @ c # ys))"
    using assms(2) by simp
  ultimately show ?thesis
    using assms(2) by (simp add: nth_append)
qed

lemma starts_with_ci_head:
  assumes "starts_with_ci (x # w) s"
  shows "\<exists>a q. s = a # q \<and> tolower a = x"
  using assms by (cases s) (simp_all add: starts_with_ci_def)

lemma starts_with_ci_shorter:
  assumes "starts_with_ci (w1 @ w2) s"
  shows "starts_with_ci w1 s"
proof -
  have l: "length w1 + length w2 \<le> length s"
    and m: "map tolower (take (length w1 + length w2) s) = w1 @ w2"
    using assms by (simp_all add: starts_with_ci_def)
  have "take (length w1) (map tolower (take (length w1 + length w2) s)) = w1"
    unfolding m by simp
  then have "map tolower (take (length w1) s) = w1"
    by (simp add: take_map min_def)
  then show ?thesis
    using l by (simp add: starts_with_ci_def)
qed

lemma starts_with_ci_inf: "starts_with_ci ''infinity'' s \<Longrightarrow> starts_with_ci ''inf'' s"
  using starts_with_ci_shorter [of "''inf''" "''inity''" s] by simp

lemma tolower_plain: "\<not> isupper a \<Longrightarrow> tolower a = a"
  by (simp add: tolower_def)

lemma tolower_upper: "isupper a \<Longrightarrow> islower (tolower a)"
proof -
  assume u: "isupper a"
  then have "(of_char a + 32 :: nat) mod 256 = of_char a + 32"
    by (simp add: isupper_def)
  then show ?thesis
    using u by (simp add: tolower_def islower_def isupper_def)
qed

lemma tolower_eq_nonletter:
  assumes "\<not> islower x" shows "tolower a = x \<longleftrightarrow> a = x \<and> \<not> isupper a"
proof (cases "isupper a")
  case True
  then show ?thesis using assms tolower_upper [of a] by auto
next
  case False
  then show ?thesis by (simp add: tolower_plain)
qed

lemma scan_mantissa_trailing:
  assumes "\<not> dig c" and "c \<noteq> CHR ''.''"
  shows "scan_mantissa dig (xs @ c # ys) = map_option (\<lambda>r. r @ c # ys) (scan_mantissa dig xs)"
proof -
  have tw: "takeWhile dig (xs @ c # ys) = takeWhile dig xs"
    using assms(1) by (rule takeWhile_stop)
  have dw: "dropWhile dig (xs @ c # ys) = dropWhile dig xs @ c # ys"
    using assms(1) by (rule dropWhile_stop)
  show ?thesis
  proof (cases "dropWhile dig xs")
    case Nil
    show ?thesis
      unfolding scan_mantissa_def Let_def tw dw Nil using assms(2) by simp
  next
    case (Cons y q)
    have tq: "takeWhile dig (q @ c # ys) = takeWhile dig q"
      using assms(1) by (rule takeWhile_stop)
    have dq: "dropWhile dig (q @ c # ys) = dropWhile dig q @ c # ys"
      using assms(1) by (rule dropWhile_stop)
    show ?thesis
      unfolding scan_mantissa_def Let_def tw dw Cons by (simp add: tq dq)
  qed
qed

lemma scan_exponent_trailing:
  assumes "scan_exponent e m = []" and "tolower c \<noteq> e" and "\<not> isdigit c"
  shows "scan_exponent e (m @ c # ys) = c # ys"
proof (cases m)
  case Nil
  then show ?thesis using assms(2) by (simp add: scan_exponent_def)
next
  case (Cons x q)
  with assms(1) have x: "tolower x = e"
    by (auto simp add: scan_exponent_def split: if_splits)
  from assms(1) Cons x obtain d u where du: "snd (skip_sign q) = d # u" "isdigit d"
      "dropWhile isdigit u = []"
    by (auto simp add: scan_exponent_def split: list.splits if_splits)
  then have "snd (skip_sign q) \<noteq> []" by simp
  then have "skip_sign (q @ c # ys) = (fst (skip_sign q), snd (skip_sign q) @ c # ys)"
    by (rule skip_sign_append)
  then have "snd (skip_sign (q @ c # ys)) = d # (u @ c # ys)"
    using du(1) by simp
  then show ?thesis
    using Cons x du assms(3) by (simp add: scan_exponent_def dropWhile_stop)
qed

lemma scan_nan_chars_trailing:
  assumes "scan_nan_chars r = []" and "r = [] \<longrightarrow> c \<noteq> CHR ''(''"
  shows "scan_nan_chars (r @ c # ys) = c # ys"
proof (cases r)
  case Nil
  then show ?thesis using assms(2) by (simp add: scan_nan_chars_def)
next
  case (Cons x q)
  with assms(1) have x: "x = CHR ''(''"
    by (auto simp add: scan_nan_chars_def split: if_splits)
  from assms(1) Cons x have d: "dropWhile isnchar q = '')''"
    by (auto simp add: scan_nan_chars_def split: list.splits if_splits)
  then have "dropWhile isnchar (q @ c # ys) = '')'' @ c # ys"
    using dropWhile_append_keep [of isnchar q "c # ys"] by simp
  then show ?thesis
    using Cons x by (simp add: scan_nan_chars_def)
qed

lemma isdigit_isxdigit: "isdigit c \<Longrightarrow> isxdigit c"
  by (auto simp add: isxdigit_def in_base_def digit_value_def isdigit_def)

lemma isdigit_not_isupper: "isdigit c \<Longrightarrow> \<not> isupper c"
  by (simp add: isdigit_def isupper_def)

lemma scan_mantissa_head:
  assumes "scan_mantissa dig t = Some m"
  shows "\<exists>a q. t = a # q \<and> (dig a \<or> a = CHR ''.'')"
proof (cases t)
  case Nil
  with assms show ?thesis by (simp add: scan_mantissa_def)
next
  case (Cons a q)
  show ?thesis
  proof (cases "dig a")
    case True
    with Cons show ?thesis by simp
  next
    case False
    with assms Cons have "a = CHR ''.''"
      by (auto simp add: scan_mantissa_def split: if_splits)
    with Cons show ?thesis by simp
  qed
qed

lemma letter_chars:
  "\<not> islower CHR ''0''" "\<not> isdigit CHR ''x''" "\<not> isdigit CHR ''X''" "\<not> isupper CHR ''.''"
  "\<not> isdigit CHR ''i''" "\<not> isdigit CHR ''n''" "\<not> isupper CHR ''0''" "isdigit CHR ''0''"
  "\<not> isupper CHR ''x''" "isupper CHR ''X''"
  by (simp_all add: islower_def isdigit_def isupper_def)

lemma tolower_X: "tolower CHR ''X'' = CHR ''x''" "tolower CHR ''x'' = CHR ''x''"
  by (simp_all add: tolower_def isupper_def char_of_def bit_Suc_0_iff)

lemma hex_prefix_not_decimal:
  assumes "starts_with_ci ''0x'' t" and "scan_mantissa isdigit t = Some m"
  shows "scan_exponent CHR ''e'' m \<noteq> []"
proof -
  from assms(1) obtain a x q where t: "t = a # x # q" and a: "tolower a = CHR ''0''"
    and x: "tolower x = CHR ''x''"
    by (cases t; cases "tl t") (auto simp add: starts_with_ci_def)
  have a0: "a = CHR ''0''"
    using a tolower_eq_nonletter [OF letter_chars(1), of a] by simp
  have nx: "\<not> isdigit x" "x \<noteq> CHR ''.''"
  proof -
    show "\<not> isdigit x"
    proof
      assume "isdigit x"
      then have "tolower x = x" by (simp add: tolower_plain isdigit_not_isupper)
      with x \<open>isdigit x\<close> letter_chars(2) show False by simp
    qed
    show "x \<noteq> CHR ''.''"
    proof
      assume "x = CHR ''.''"
      then have "tolower x = CHR ''.''" by (simp add: tolower_plain letter_chars)
      with x show False by simp
    qed
  qed
  have "scan_mantissa isdigit t = Some (x # q)"
    using t a0 nx letter_chars(8) by (simp add: scan_mantissa_def)
  then have "m = x # q" using assms(2) by simp
  then show ?thesis
    using x by (simp add: scan_exponent_def)
qed

lemma scan_float_trailing:
  assumes acc: "scan_float t = Some []"
    and ne: "\<not> (if starts_with_ci ''infinity'' t then False
         else if starts_with_ci ''inf'' t then tolower c = CHR ''i''
         else if starts_with_ci ''nan'' t then length t = 3 \<and> c = CHR ''(''
         else if starts_with_ci ''0x'' t \<and> scan_mantissa isxdigit (drop 2 t) \<noteq> None
           then isxdigit c \<or> c = CHR ''.'' \<or> tolower c = CHR ''p''
         else isdigit c \<or> c = CHR ''.'' \<or> tolower c = CHR ''e'' \<or>
              (t = ''0'' \<and> tolower c = CHR ''x''))"
  shows "scan_float (t @ c # rest) = Some (c # rest)"
proof -
  let ?t = "t @ c # rest"
  consider (A) "starts_with_ci ''infinity'' t"
    | (B) "\<not> starts_with_ci ''infinity'' t" "starts_with_ci ''inf'' t"
    | (C) "\<not> starts_with_ci ''infinity'' t" "\<not> starts_with_ci ''inf'' t" "starts_with_ci ''nan'' t"
    | (D) "\<not> starts_with_ci ''infinity'' t" "\<not> starts_with_ci ''inf'' t"
        "\<not> starts_with_ci ''nan'' t"
        "starts_with_ci ''0x'' t \<and> scan_mantissa isxdigit (drop 2 t) \<noteq> None"
    | (E) "\<not> starts_with_ci ''infinity'' t" "\<not> starts_with_ci ''inf'' t"
        "\<not> starts_with_ci ''nan'' t"
        "\<not> (starts_with_ci ''0x'' t \<and> scan_mantissa isxdigit (drop 2 t) \<noteq> None)"
    by blast
  then show ?thesis
  proof cases
    case A
    then have l: "8 \<le> length t" by (simp add: starts_with_ci_def)
    have "drop 8 t = []" using acc A by (simp add: scan_float_def)
    then have "length t = 8" using l by simp
    moreover have "starts_with_ci ''infinity'' ?t"
      using A l by (simp add: starts_with_ci_append)
    ultimately show ?thesis by (simp add: scan_float_def)
  next
    case B
    then have l: "3 \<le> length t" by (simp add: starts_with_ci_def)
    have "drop 3 t = []" using acc B by (simp add: scan_float_def)
    then have l3: "length t = 3" using l by simp
    have ci: "tolower c \<noteq> CHR ''i''" using ne B by simp
    have "\<not> starts_with_ci ''infinity'' ?t"
    proof
      assume "starts_with_ci ''infinity'' ?t"
      then have "tolower c = ''infinity'' ! length t"
        by (rule starts_with_ci_next) (simp add: l3)
      with ci l3 show False by simp
    qed
    moreover have "starts_with_ci ''inf'' ?t"
      using B l by (simp add: starts_with_ci_append)
    ultimately show ?thesis using l3 by (simp add: scan_float_def)
  next
    case C
    then have l: "3 \<le> length t" by (simp add: starts_with_ci_def)
    have n: "scan_nan_chars (drop 3 t) = []" using acc C by (simp add: scan_float_def)
    have cp: "drop 3 t = [] \<longrightarrow> c \<noteq> CHR ''(''" using ne C l by auto
    have nb: "\<not> starts_with_ci ''inf'' ?t"
      using C(2) l by (simp add: starts_with_ci_append)
    then have na: "\<not> starts_with_ci ''infinity'' ?t"
      using starts_with_ci_inf by blast
    have c': "starts_with_ci ''nan'' ?t"
      using C(3) l by (simp add: starts_with_ci_append)
    have "scan_nan_chars (drop 3 t @ c # rest) = c # rest"
      using n cp by (rule scan_nan_chars_trailing)
    then show ?thesis
      using na nb c' l by (simp add: scan_float_def)
  next
    case D
    then obtain m where m: "scan_mantissa isxdigit (drop 2 t) = Some m" by blast
    have ex: "scan_exponent CHR ''p'' m = []"
      using acc D m by (simp add: scan_float_def)
    have "drop 2 t \<noteq> []"
      using m by (auto simp add: scan_mantissa_def)
    then have l: "3 \<le> length t" by (simp add: Suc_le_eq)
    have cc: "\<not> isxdigit c" "c \<noteq> CHR ''.''" "tolower c \<noteq> CHR ''p''"
      using ne D by simp_all
    have nb: "\<not> starts_with_ci ''inf'' ?t"
      using D(2) l by (simp add: starts_with_ci_append)
    then have na: "\<not> starts_with_ci ''infinity'' ?t"
      using starts_with_ci_inf by blast
    have nc: "\<not> starts_with_ci ''nan'' ?t"
      using D(3) l by (simp add: starts_with_ci_append)
    have hx: "starts_with_ci ''0x'' ?t"
      using D(4) l by (simp add: starts_with_ci_append)
    have mm: "scan_mantissa isxdigit (drop 2 t @ c # rest) = Some (m @ c # rest)"
      using scan_mantissa_trailing [of isxdigit c "drop 2 t" rest] cc(1,2) m by simp
    have ee: "scan_exponent CHR ''p'' (m @ c # rest) = c # rest"
      using ex cc(3) cc(1) isdigit_isxdigit by (intro scan_exponent_trailing) auto
    show ?thesis
      using na nb nc hx mm ee l by (simp add: scan_float_def)
  next
    case E
    then obtain m where m: "scan_mantissa isdigit t = Some m"
      and ex: "scan_exponent CHR ''e'' m = []"
      using acc by (auto simp add: scan_float_def)
    obtain a q where t: "t = a # q" and a: "isdigit a \<or> a = CHR ''.''"
      using scan_mantissa_head [OF m] by blast
    have "\<not> (isdigit c \<or> c = CHR ''.'' \<or> tolower c = CHR ''e'' \<or>
        (t = ''0'' \<and> tolower c = CHR ''x''))"
      using ne unfolding if_not_P [OF E(1)] if_not_P [OF E(2)] if_not_P [OF E(3)]
        if_not_P [OF E(4)] .
    then have cc: "\<not> isdigit c" "c \<noteq> CHR ''.''" "tolower c \<noteq> CHR ''e''"
      "\<not> (t = ''0'' \<and> tolower c = CHR ''x'')"
      by blast+
    have la: "tolower a = a"
      using a by (auto simp add: tolower_plain isdigit_not_isupper letter_chars)
    have nh: "\<not> starts_with_ci (x # w) ?t" if "\<not> isdigit x" "x \<noteq> CHR ''.''" for x w
    proof
      assume "starts_with_ci (x # w) ?t"
      then have "tolower a = x"
        using starts_with_ci_head [of x w ?t] t by simp
      with la a that show False by auto
    qed
    have na: "\<not> starts_with_ci ''infinity'' ?t" and nb: "\<not> starts_with_ci ''inf'' ?t"
      and nc: "\<not> starts_with_ci ''nan'' ?t"
      using nh letter_chars by simp_all
    have nd: "\<not> starts_with_ci ''0x'' ?t"
    proof
      assume h: "starts_with_ci ''0x'' ?t"
      show False
      proof (cases q)
        case Nil
        then have "tolower c = ''0x'' ! length t"
          using h t by (intro starts_with_ci_next [of _ _ _ rest]) simp_all
        then have cx: "tolower c = CHR ''x''" using t Nil by simp
        have "tolower a = CHR ''0''"
          using starts_with_ci_head [OF h] t by simp
        then have "t = ''0''" using la t Nil by simp
        with cx cc(4) show False by simp
      next
        case (Cons a1 q1)
        then have "starts_with_ci ''0x'' t"
          using h t starts_with_ci_append [of "''0x''" t "c # rest"] by simp
        then show False
          using hex_prefix_not_decimal [OF _ m] ex by simp
      qed
    qed
    have mm: "scan_mantissa isdigit ?t = Some (m @ c # rest)"
      using scan_mantissa_trailing [of isdigit c t rest] cc(1,2) m by simp
    have ee: "scan_exponent CHR ''e'' (m @ c # rest) = c # rest"
      using ex cc(3) cc(1) by (rule scan_exponent_trailing)
    show ?thesis
      using na nb nc nd mm ee by (simp add: scan_float_def)
  qed
qed

lemma scan_float_Nil: "scan_float [] = None"
  by (simp add: scan_float_def starts_with_ci_def scan_mantissa_def)

lemma strto_float_trailing:
  assumes "snd (strto_float cv tok) = ([], ENONE)" and "tok \<noteq> []" and "\<not> extends_float tok c"
  shows "fst (snd (strto_float cv (tok @ c # rest))) = c # rest"
proof -
  define t where "t = snd (skip_sign (dropWhile isspace tok))"
  have acc: "scan_float t = Some []"
    using assms(1,2) unfolding strto_float_def t_def
    by (auto split: option.splits prod.splits)
  then have tne: "t \<noteq> []"
    using scan_float_Nil by auto
  have fr: "snd (skip_sign (dropWhile isspace (tok @ c # rest))) = t @ c # rest"
    using front_append [of tok "c # rest"] tne unfolding t_def by simp
  have "scan_float (t @ c # rest) = Some (c # rest)"
    using acc assms(3) unfolding extends_float_def Let_def t_def [symmetric]
    by (rule scan_float_trailing)
  then show ?thesis
    by (simp add: strto_float_def fr split: prod.splits)
qed

lemma float_trailing:
  assumes "\<not> extends_float tok c"
  shows "fst (spa_atof cvf (Some tok) f) \<Longrightarrow> spa_atof cvf (Some (tok @ c # rest)) f = (False, f)"
    and "fst (spa_atod cvd (Some tok) d) \<Longrightarrow> spa_atod cvd (Some (tok @ c # rest)) d = (False, d)"
proof -
  show "spa_atof cvf (Some (tok @ c # rest)) f = (False, f)" if "fst (spa_atof cvf (Some tok) f)"
  proof -
    have "tok \<noteq> []" "snd (strto_float cvf tok) = ([], ENONE)"
      using that by (auto simp add: spa_atof_def strtof_def split: if_splits prod.splits)
    then have "fst (snd (strto_float cvf (tok @ c # rest))) = c # rest"
      using assms by (intro strto_float_trailing) simp_all
    then show ?thesis
      by (auto simp add: spa_atof_def strtof_def split: prod.splits)
  qed
  show "spa_atod cvd (Some (tok @ c # rest)) d = (False, d)" if "fst (spa_atod cvd (Some tok) d)"
  proof -
    have "tok \<noteq> []" "snd (strto_float cvd tok) = ([], ENONE)"
      using that by (auto simp add: spa_atod_def strtod_def split: if_splits prod.splits)
    then have "fst (snd (strto_float cvd (tok @ c # rest))) = c # rest"
      using assms by (intro strto_float_trailing) simp_all
    then show ?thesis
      by (auto simp add: spa_atod_def strtod_def split: prod.splits)
  qed
qed

lemmas float_eval = spa_atof_def spa_atod_def strtof_def strtod_def strto_float_def scan_float_def
  starts_with_ci_def scan_mantissa_def scan_exponent_def scan_nan_chars_def tolower_def
  isxdigit_def isnchar_def extends_float_def

subsection \<open>The integer and floating-point parsers\<close>

text \<open>
  C1. Take a string that one of the six numeric parsers accepts and put behind it a
  character that is not numeric there, that is, one with which the number cannot go on,
  and then any text. The parser returns false for the longer string and leaves the
  output slot as it was. \<^verbatim>\<open>"42xyz"\<close> is \<^verbatim>\<open>"42"\<close> with such a character for the integer
  parsers in base 10, \<^verbatim>\<open>"3.14 "\<close> is \<^verbatim>\<open>"3.14"\<close> with one for the floating-point parsers.
\<close>

theorem trailing_text_rejected:
  "(fst (spa_atoi32 (Some tok) v32 base) \<and> \<not> extends_integer base tok c \<longrightarrow>
      spa_atoi32 (Some (tok @ c # rest)) v32 base = (False, v32)) \<and>
   (fst (spa_atou32 (Some tok) u32 base) \<and> \<not> extends_integer base tok c \<longrightarrow>
      spa_atou32 (Some (tok @ c # rest)) u32 base = (False, u32)) \<and>
   (fst (spa_atoi64 (Some tok) v64 base) \<and> \<not> extends_integer base tok c \<longrightarrow>
      spa_atoi64 (Some (tok @ c # rest)) v64 base = (False, v64)) \<and>
   (fst (spa_atou64 (Some tok) u64 base) \<and> \<not> extends_integer base tok c \<longrightarrow>
      spa_atou64 (Some (tok @ c # rest)) u64 base = (False, u64)) \<and>
   (fst (spa_atof cvf (Some tok) f) \<and> \<not> extends_float tok c \<longrightarrow>
      spa_atof cvf (Some (tok @ c # rest)) f = (False, f)) \<and>
   (fst (spa_atod cvd (Some tok) d) \<and> \<not> extends_float tok c \<longrightarrow>
      spa_atod cvd (Some (tok @ c # rest)) d = (False, d))"
  by (intro conjI impI; elim conjE) (blast intro: integer_trailing float_trailing)+

theorem trailing_text_rejected_witness:
  "fst (spa_atoi32 (Some ''42'') 7 10) \<and> \<not> extends_integer 10 ''42'' CHR ''x'' \<and>
   spa_atoi32 (Some ''42xyz'') 7 10 = (False, 7) \<and>
   fst (spa_atou32 (Some ''42'') 7 0) \<and> \<not> extends_integer 0 ''42'' CHR ''x'' \<and>
   spa_atou32 (Some ''42xyz'') 7 0 = (False, 7) \<and>
   fst (spa_atoi64 (Some ''-0'') 7 16) \<and> \<not> extends_integer 16 ''-0'' CHR ''g'' \<and>
   spa_atoi64 (Some ''-0g'') 7 16 = (False, 7) \<and>
   fst (spa_atou64 (Some '' 0x1F'') 7 16) \<and> \<not> extends_integer 16 '' 0x1F'' CHR '' '' \<and>
   spa_atou64 (Some '' 0x1F '') 7 16 = (False, 7) \<and>
   fst (spa_atof (\<lambda>t. (t, ENONE)) (Some ''3.14'') ''old'') \<and> \<not> extends_float ''3.14'' CHR '' '' \<and>
   spa_atof (\<lambda>t. (t, ENONE)) (Some ''3.14 '') ''old'' = (False, ''old'') \<and>
   fst (spa_atod (\<lambda>t. (t, ENONE)) (Some ''42'') ''old'') \<and> \<not> extends_float ''42'' CHR ''x'' \<and>
   spa_atod (\<lambda>t. (t, ENONE)) (Some ''42xyz'') ''old'' = (False, ''old'')"
proof -
  have i: "fst (spa_atoi32 (Some ''42'') 7 10)" "fst (spa_atou32 (Some ''42'') 7 0)"
    by (simp_all add: spa_atoi32_Some spa_atou32_Some strto_eval)
  have j: "fst (spa_atoi64 (Some ''-0'') 7 16)" "fst (spa_atou64 (Some '' 0x1F'') 7 16)"
    by (simp_all add: spa_atoi64_def spa_atou64_def strto_eval)
  have e: "\<not> extends_integer 10 ''42'' CHR ''x''" "\<not> extends_integer 0 ''42'' CHR ''x''"
    "\<not> extends_integer 16 ''-0'' CHR ''g''" "\<not> extends_integer 16 '' 0x1F'' CHR '' ''"
    by (simp_all add: extends_integer_def strto_eval)
  have k: "fst (spa_atof (\<lambda>t. (t, ENONE)) (Some ''3.14'') ''old'')"
    "fst (spa_atod (\<lambda>t. (t, ENONE)) (Some ''42'') ''old'')"
    by (simp_all add: float_eval strto_eval)
  have x: "\<not> extends_float ''3.14'' CHR '' ''" "\<not> extends_float ''42'' CHR ''x''"
    by (simp_all add: float_eval strto_eval)
  show ?thesis
    using i j e k x
      trailing_text_rejected [of "''42''" 7 10 "CHR ''x''" "''yz''" 7 7 7
        "\<lambda>t. (t, ENONE)" "''old''" "\<lambda>t. (t, ENONE)" "''old''"]
      trailing_text_rejected [of "''42''" 7 0 "CHR ''x''" "''yz''" 7 7 7
        "\<lambda>t. (t, ENONE)" "''old''" "\<lambda>t. (t, ENONE)" "''old''"]
      trailing_text_rejected [of "''-0''" 7 16 "CHR ''g''" "[]" 7 7 7
        "\<lambda>t. (t, ENONE)" "''old''" "\<lambda>t. (t, ENONE)" "''old''"]
      trailing_text_rejected [of "'' 0x1F''" 7 16 "CHR '' ''" "[]" 7 7 7
        "\<lambda>t. (t, ENONE)" "''old''" "\<lambda>t. (t, ENONE)" "''old''"]
      trailing_text_rejected [of "''3.14''" 7 10 "CHR '' ''" "[]" 7 7 7
        "\<lambda>t. (t, ENONE)" "''old''" "\<lambda>t. (t, ENONE)" "''old''"]
    by simp
qed

text \<open>
  C2. Whenever one of the six numeric parsers returns false, for an absent, an empty or
  any other string and for any base, the output slot holds the value it held before
  the call.
\<close>

theorem parse_failure_keeps_output:
  "(\<not> fst (spa_atoi32 str v32 base) \<longrightarrow> snd (spa_atoi32 str v32 base) = v32) \<and>
   (\<not> fst (spa_atou32 str u32 base) \<longrightarrow> snd (spa_atou32 str u32 base) = u32) \<and>
   (\<not> fst (spa_atoi64 str v64 base) \<longrightarrow> snd (spa_atoi64 str v64 base) = v64) \<and>
   (\<not> fst (spa_atou64 str u64 base) \<longrightarrow> snd (spa_atou64 str u64 base) = u64) \<and>
   (\<not> fst (spa_atof cvf str f) \<longrightarrow> snd (spa_atof cvf str f) = f) \<and>
   (\<not> fst (spa_atod cvd str d) \<longrightarrow> snd (spa_atod cvd str d) = d)"
  by (simp add: spa_atoi32_def spa_atou32_def spa_atoi64_def spa_atou64_def spa_atof_def
      spa_atod_def split: option.split prod.split)

theorem parse_failure_keeps_output_witness:
  "\<not> fst (spa_atoi32 (Some ''42xyz'') 7 10) \<and> snd (spa_atoi32 (Some ''42xyz'') 7 10) = 7 \<and>
   \<not> fst (spa_atou32 (Some ''42xyz'') 7 10) \<and> snd (spa_atou32 (Some ''42xyz'') 7 10) = 7 \<and>
   \<not> fst (spa_atoi64 (Some ''42xyz'') 7 10) \<and> snd (spa_atoi64 (Some ''42xyz'') 7 10) = 7 \<and>
   \<not> fst (spa_atou64 (Some ''42xyz'') 7 10) \<and> snd (spa_atou64 (Some ''42xyz'') 7 10) = 7 \<and>
   \<not> fst (spa_atof (\<lambda>t. (t, ENONE)) None ''old'') \<and>
   snd (spa_atof (\<lambda>t. (t, ENONE)) None ''old'') = ''old'' \<and>
   \<not> fst (spa_atod (\<lambda>t. (t, ENONE)) (Some []) ''old'') \<and>
   snd (spa_atod (\<lambda>t. (t, ENONE)) (Some []) ''old'') = ''old''"
proof -
  have "\<not> fst (spa_atoi32 (Some ''42xyz'') 7 10)" "\<not> fst (spa_atou32 (Some ''42xyz'') 7 10)"
    by (simp_all add: spa_atoi32_Some spa_atou32_Some strto_eval)
  moreover have "\<not> fst (spa_atoi64 (Some ''42xyz'') 7 10)"
    "\<not> fst (spa_atou64 (Some ''42xyz'') 7 10)"
    by (simp_all add: spa_atoi64_def spa_atou64_def strto_eval)
  moreover have "\<not> fst (spa_atof (\<lambda>t. (t, ENONE)) None ''old'')"
    "\<not> fst (spa_atod (\<lambda>t. (t, ENONE)) (Some []) ''old'')"
    by (simp_all add: spa_atof_def spa_atod_def)
  ultimately show ?thesis
    using parse_failure_keeps_output [of "Some ''42xyz''" 7 10 7 7 7 "\<lambda>t. (t, ENONE)" "''old''"
        "\<lambda>t. (t, ENONE)" "''old''"]
      parse_failure_keeps_output [of None 7 10 7 7 7 "\<lambda>t. (t, ENONE)" "''old''"
        "\<lambda>t. (t, ENONE)" "''old''"]
      parse_failure_keeps_output [of "Some []" 7 10 7 7 7 "\<lambda>t. (t, ENONE)" "''old''"
        "\<lambda>t. (t, ENONE)" "''old''"]
    by simp
qed

text \<open>
  C3. A string that the wide conversion reads to its end without error, but whose value
  is outside the 32-bit type, is rejected and the slot is left alone; a string that is
  accepted stores the very value the wide conversion returned, neither clamped nor
  wrapped. With base 10, \<open>spa_atou32\<close> rejects \<^verbatim>\<open>"4294967296"\<close> and \<^verbatim>\<open>"-1"\<close> and
  accepts \<^verbatim>\<open>"4294967295"\<close>, and \<open>spa_atoi32\<close> accepts \<^verbatim>\<open>"-1"\<close> as \<open>-1\<close>.
\<close>

theorem spa_ato32_range_check:
  "(s \<noteq> [] \<and> strtol s base = (v, [], ENONE) \<and> (sint v < - (2 ^ 31) \<or> 2 ^ 31 \<le> sint v) \<longrightarrow>
      spa_atoi32 (Some s) val base = (False, val)) \<and>
   (s \<noteq> [] \<and> strtoull s base = (u, [], ENONE) \<and> 2 ^ 32 \<le> uint u \<longrightarrow>
      spa_atou32 (Some s) uval base = (False, uval)) \<and>
   (fst (spa_atoi32 (Some s) val base) \<longrightarrow>
      sint (snd (spa_atoi32 (Some s) val base)) = sint (fst (strtol s base))) \<and>
   (fst (spa_atou32 (Some s) uval base) \<longrightarrow>
      uint (snd (spa_atou32 (Some s) uval base)) = uint (fst (strtoull s base))) \<and>
   spa_atou32 (Some ''4294967296'') uval 10 = (False, uval) \<and>
   spa_atou32 (Some ''4294967295'') uval 10 = (True, 4294967295) \<and>
   spa_atou32 (Some ''-1'') uval 10 = (False, uval) \<and>
   spa_atoi32 (Some ''-1'') val 10 = (True, - 1)"
proof -
  have "s \<noteq> [] \<and> strtol s base = (v, [], ENONE) \<and> (sint v < - (2 ^ 31) \<or> 2 ^ 31 \<le> sint v) \<longrightarrow>
      spa_atoi32 (Some s) val base = (False, val)"
    by (auto simp add: spa_atoi32_Some)
  moreover have "s \<noteq> [] \<and> strtoull s base = (u, [], ENONE) \<and> 2 ^ 32 \<le> uint u \<longrightarrow>
      spa_atou32 (Some s) uval base = (False, uval)"
    by (auto simp add: spa_atou32_Some)
  moreover have "fst (spa_atoi32 (Some s) val base) \<longrightarrow>
      sint (snd (spa_atoi32 (Some s) val base)) = sint (fst (strtol s base))"
  proof (cases "s = []")
    case True
    then show ?thesis by (simp add: spa_atoi32_def)
  next
    case False
    then show ?thesis by (auto simp add: spa_atoi32_Some sint_scast_i32 split: prod.splits)
  qed
  moreover have "fst (spa_atou32 (Some s) uval base) \<longrightarrow>
      uint (snd (spa_atou32 (Some s) uval base)) = uint (fst (strtoull s base))"
  proof (cases "s = []")
    case True
    then show ?thesis by (simp add: spa_atou32_def)
  next
    case False
    then show ?thesis by (auto simp add: spa_atou32_Some uint_ucast_u32 split: prod.splits)
  qed
  moreover have "spa_atou32 (Some ''4294967296'') uval 10 = (False, uval)"
    by (simp add: spa_atou32_Some strto_eval)
  moreover have "spa_atou32 (Some ''4294967295'') uval 10 = (True, 4294967295)"
    by (simp add: spa_atou32_Some strto_eval)
  moreover have "spa_atou32 (Some ''-1'') uval 10 = (False, uval)"
    by (simp add: spa_atou32_Some strto_eval unsigned_minus_1_eq_mask mask_eq_exp_minus_1)
  moreover have "spa_atoi32 (Some ''-1'') val 10 = (True, - 1)"
    by (simp add: spa_atoi32_Some strto_eval)
  ultimately show ?thesis by (simp only: simp_thms)
qed

theorem spa_ato32_range_check_witness:
  "strtol ''2147483648'' 10 = (2147483648, [], ENONE) \<and>
   spa_atoi32 (Some ''2147483648'') 7 10 = (False, 7) \<and>
   strtoull ''-4294967295'' 10 = (- 4294967295, [], ENONE) \<and>
   spa_atou32 (Some ''-4294967295'') 7 10 = (False, 7) \<and>
   fst (spa_atoi32 (Some ''-2147483648'') 7 10) \<and>
   sint (snd (spa_atoi32 (Some ''-2147483648'') 7 10)) = - 2147483648 \<and>
   fst (spa_atou32 (Some ''0xfffffffF'') 7 16) \<and>
   uint (snd (spa_atou32 (Some ''0xfffffffF'') 7 16)) = 4294967295"
proof -
  have a: "strtol ''2147483648'' 10 = (2147483648, [], ENONE)"
    "strtol ''-2147483648'' 10 = (- 2147483648, [], ENONE)"
    by (simp_all add: strto_eval)
  have b: "strtoull ''-4294967295'' 10 = (- 4294967295, [], ENONE)"
    "strtoull ''0xfffffffF'' 16 = (4294967295, [], ENONE)"
    by (simp_all add: strto_eval)
  have c: "fst (spa_atoi32 (Some ''-2147483648'') 7 10)"
    by (simp add: spa_atoi32_Some a)
  have d: "fst (spa_atou32 (Some ''0xfffffffF'') 7 16)"
    by (simp add: spa_atou32_Some b)
  show ?thesis
    using a b c d
      spa_ato32_range_check [of "''2147483648''" 10 2147483648 7 0 7]
      spa_ato32_range_check [of "''-4294967295''" 10 0 7 "- 4294967295" 7]
      spa_ato32_range_check [of "''-2147483648''" 10 0 7 0 7]
      spa_ato32_range_check [of "''0xfffffffF''" 16 0 7 0 7]
    by simp
qed

text \<open>
  C4. For every base from 2 to 36 and every value in the range of the target type, the
  matching parser reads the rendering of the value in that base back: it succeeds and
  stores exactly that value. Base 10 is the case of decimal text. With base 0 the same
  holds for a rendering in base 8, 10 or 16 that carries the prefix of its base.
\<close>

theorem parse_render_roundtrip:
  "(2 \<le> b \<and> b \<le> 36 \<and> - (2 ^ 31) \<le> v \<and> v < 2 ^ 31 \<longrightarrow>
      spa_atoi32 (Some (render False b v)) old32 (int b) = (True, word_of_int v) \<and>
      sint (word_of_int v :: int32_t) = v) \<and>
   (2 \<le> b \<and> b \<le> 36 \<and> 0 \<le> v \<and> v < 2 ^ 32 \<longrightarrow>
      spa_atou32 (Some (render False b v)) old32 (int b) = (True, word_of_int v) \<and>
      uint (word_of_int v :: uint32_t) = v) \<and>
   (2 \<le> b \<and> b \<le> 36 \<and> - (2 ^ 63) \<le> v \<and> v < 2 ^ 63 \<longrightarrow>
      spa_atoi64 (Some (render False b v)) old64 (int b) = (True, word_of_int v) \<and>
      sint (word_of_int v :: int64_t) = v) \<and>
   (2 \<le> b \<and> b \<le> 36 \<and> 0 \<le> v \<and> v < 2 ^ 64 \<longrightarrow>
      spa_atou64 (Some (render False b v)) old64 (int b) = (True, word_of_int v) \<and>
      uint (word_of_int v :: uint64_t) = v) \<and>
   ((b = 8 \<or> b = 10 \<or> b = 16) \<and> - (2 ^ 31) \<le> v \<and> v < 2 ^ 31 \<longrightarrow>
      spa_atoi32 (Some (render True b v)) old32 0 = (True, word_of_int v)) \<and>
   ((b = 8 \<or> b = 10 \<or> b = 16) \<and> 0 \<le> v \<and> v < 2 ^ 32 \<longrightarrow>
      spa_atou32 (Some (render True b v)) old32 0 = (True, word_of_int v)) \<and>
   ((b = 8 \<or> b = 10 \<or> b = 16) \<and> - (2 ^ 63) \<le> v \<and> v < 2 ^ 63 \<longrightarrow>
      spa_atoi64 (Some (render True b v)) old64 0 = (True, word_of_int v)) \<and>
   ((b = 8 \<or> b = 10 \<or> b = 16) \<and> 0 \<le> v \<and> v < 2 ^ 64 \<longrightarrow>
      spa_atou64 (Some (render True b v)) old64 0 = (True, word_of_int v))"
  by (intro conjI impI; elim conjE)
    (simp_all only: roundtrip_plain roundtrip_prefixed sint32_word_of_int sint64_word_of_int
      uint32_word_of_int uint64_word_of_int)

theorem parse_render_roundtrip_witness:
  "render False 10 (- 2147483648) = ''-2147483648'' \<and>
   spa_atoi32 (Some ''-2147483648'') 7 10 = (True, - 2147483648) \<and>
   render False 10 4294967295 = ''4294967295'' \<and>
   spa_atou32 (Some ''4294967295'') 7 10 = (True, 4294967295) \<and>
   render False 10 9223372036854775807 = ''9223372036854775807'' \<and>
   spa_atoi64 (Some ''9223372036854775807'') 7 10 = (True, 9223372036854775807) \<and>
   render False 10 18446744073709551615 = ''18446744073709551615'' \<and>
   spa_atou64 (Some ''18446744073709551615'') 7 10 = (True, 18446744073709551615) \<and>
   render True 16 (- 255) = ''-0xff'' \<and>
   spa_atoi32 (Some ''-0xff'') 7 0 = (True, - 255) \<and>
   render True 8 8 = ''010'' \<and>
   spa_atou32 (Some ''010'') 7 0 = (True, 8) \<and>
   render True 10 (- 1) = ''-1'' \<and>
   spa_atoi64 (Some ''-1'') 7 0 = (True, - 1) \<and>
   render True 16 255 = ''0xff'' \<and>
   spa_atou64 (Some ''0xff'') 7 0 = (True, 255)"
proof -
  have r: "render False 10 (- 2147483648) = ''-2147483648''"
    "render False 10 4294967295 = ''4294967295''"
    "render False 10 9223372036854775807 = ''9223372036854775807''"
    "render False 10 18446744073709551615 = ''18446744073709551615''"
    "render True 16 (- 255) = ''-0xff''" "render True 8 8 = ''010''"
    "render True 10 (- 1) = ''-1''" "render True 16 255 = ''0xff''"
    by (simp_all add: render_eval)
  show ?thesis
    using parse_render_roundtrip [of 10 "- 2147483648" 7 7]
      parse_render_roundtrip [of 10 4294967295 7 7]
      parse_render_roundtrip [of 10 9223372036854775807 7 7]
      parse_render_roundtrip [of 10 18446744073709551615 7 7]
      parse_render_roundtrip [of 16 "- 255" 7 7]
      parse_render_roundtrip [of 8 8 7 7]
      parse_render_roundtrip [of 10 "- 1" 7 7]
      parse_render_roundtrip [of 16 255 7 7]
    unfolding r by simp
qed

text \<open>
  C10. \<open>spa_atou64\<close> accepts \<^verbatim>\<open>"-1"\<close> with base 10 and stores \<open>2\<^sup>6\<^sup>4 - 1\<close>; for every
  \<open>k\<close> from 1 to \<open>2\<^sup>6\<^sup>4 - 1\<close> it accepts the decimal text of \<open>-k\<close> and stores
  \<open>2\<^sup>6\<^sup>4 - k\<close>.
\<close>

theorem spa_atou64_minus:
  "spa_atou64 (Some ''-1'') old 10 = (True, - 1) \<and>
   uint (- 1 :: uint64_t) = 2 ^ 64 - 1 \<and>
   (1 \<le> k \<and> k \<le> 2 ^ 64 - 1 \<longrightarrow>
      spa_atou64 (Some (render False 10 (- k))) old 10 = (True, word_of_int (2 ^ 64 - k)) \<and>
      uint (word_of_int (2 ^ 64 - k) :: uint64_t) = 2 ^ 64 - k)"
proof (intro conjI impI)
  show "spa_atou64 (Some ''-1'') old 10 = (True, - 1)"
    by (simp add: spa_atou64_def strto_eval)
  show "uint (- 1 :: uint64_t) = 2 ^ 64 - 1"
    by (simp add: unsigned_minus_1_eq_mask mask_eq_exp_minus_1)
next
  assume k: "1 \<le> k \<and> k \<le> 2 ^ 64 - 1"
  have b: "(2::nat) \<le> 10" "(10::nat) \<le> 36" by simp_all
  have m: "strto_magnitude (render False 10 (- k)) (int 10) = Some (True, nat k, [])"
    using strto_magnitude_render(1) [OF b, of "- k"] k by simp
  have "spa_atou64 (Some (render False 10 (- k))) old (int 10) = (True, - word_of_int k)"
    using spa_atou64_exact [OF good_base(1) [OF b] render_not_Nil m] k by simp
  moreover have "(- word_of_int k :: uint64_t) = word_of_int (2 ^ 64 - k)"
    by (simp add: word_of_int_2p_len [where 'a = 64, simplified])
  ultimately show "spa_atou64 (Some (render False 10 (- k))) old 10 = (True, word_of_int (2 ^ 64 - k))"
    by simp
  show "uint (word_of_int (2 ^ 64 - k) :: uint64_t) = 2 ^ 64 - k"
    using k by (intro uint64_word_of_int) simp_all
qed

theorem spa_atou64_minus_witness:
  "render False 10 (- 18446744073709551615) = ''-18446744073709551615'' \<and>
   spa_atou64 (Some ''-18446744073709551615'') 7 10 = (True, 1) \<and>
   render False 10 (- 2) = ''-2'' \<and>
   spa_atou64 (Some ''-2'') 7 10 = (True, 18446744073709551614)"
proof -
  have r: "render False 10 (- 18446744073709551615) = ''-18446744073709551615''"
    "render False 10 (- 2) = ''-2''"
    by (simp_all add: render_eval)
  show ?thesis
    using spa_atou64_minus [of 7 18446744073709551615] spa_atou64_minus [of 7 2]
    unfolding r by simp
qed
subsection \<open>Bounded formatting\<close>

lemma vsnprintf_Some:
  assumes "length t \<le> 2 ^ 31 - 1"
  shows "vsnprintf buffer sz (Some t) =
    (word_of_nat (length t), if sz = 0 then buffer else store (take (unat sz - 1) t @ [NUL]) buffer)"
  using assms by (simp add: vsnprintf_def)

lemma sint_length32:
  assumes "length (t :: string) \<le> 2 ^ 31 - 1"
  shows "sint (word_of_nat (length t) :: 32 word) = int (length t)"
  using assms by (intro sint_word_of_nat_eq) simp

lemma spa_vscnprintf_fits:
  assumes "0 < sint sz" "expand format args = Some t" "length t \<le> 2 ^ 31 - 1" "length t < unat sz"
  shows "spa_vscnprintf expand buffer sz format args =
     Returned (word_of_nat (length t), store (t @ [NUL]) buffer)"
proof -
  have "sz \<noteq> 0" using assms(1) by auto
  moreover have "int (length t) < sint sz"
    using sint_pos_unat [OF assms(1)] assms(4) by linarith
  ultimately show ?thesis
    using assms
    by (simp add: spa_vscnprintf_def spa_assert_def vsnprintf_Some sint_length32)
qed

lemma spa_vscnprintf_truncates:
  assumes "0 < sint sz" "expand format args = Some t" "length t \<le> 2 ^ 31 - 1" "unat sz \<le> length t"
  shows "spa_vscnprintf expand buffer sz format args =
     Returned (word_of_nat (unat sz - 1), store (take (unat sz - 1) t @ [NUL]) buffer)"
proof -
  have "sz \<noteq> 0" using assms(1) by auto
  moreover have "\<not> int (length t) < sint sz"
    using sint_pos_unat [OF assms(1)] assms(4) by linarith
  moreover have "(ucast (sz - 1) :: 32 word) = word_of_nat (unat sz - 1)"
    using unat_minus_one [OF \<open>sz \<noteq> 0\<close>] of_nat_unat [of "sz - 1", where 'a = "32 word"]
    by (simp only:)
  ultimately show ?thesis
    using assms
    by (simp add: spa_vscnprintf_def spa_assert_def vsnprintf_Some sint_length32)
qed

text \<open>
  C5. Let the capacity be positive and let the formatting succeed with a text \<open>t\<close>. If
  the length of \<open>t\<close> is below the capacity, \<open>spa_vscnprintf\<close> and \<open>spa_scnprintf\<close> return
  that length and the buffer holds \<open>t\<close> followed by a NUL. Otherwise they return the
  capacity less one, and the buffer holds that many bytes of \<open>t\<close> followed by a NUL.
  The capacity is positive in the sense of the code, as a signed number; a formatting
  that succeeds gives a text of at most \<^verbatim>\<open>INT_MAX\<close> bytes.
\<close>

theorem spa_scnprintf_spec:
  assumes "0 < sint sz" and "expand format args = Some t" and "length t \<le> 2 ^ 31 - 1"
  shows "(length t < unat sz \<longrightarrow>
            spa_vscnprintf expand buffer sz format args =
              Returned (word_of_nat (length t), store (t @ [NUL]) buffer) \<and>
            spa_scnprintf expand buffer sz format args =
              Returned (word_of_nat (length t), store (t @ [NUL]) buffer) \<and>
            sint (word_of_nat (length t) :: 32 word) = int (length t)) \<and>
         (unat sz \<le> length t \<longrightarrow>
            spa_vscnprintf expand buffer sz format args =
              Returned (word_of_nat (unat sz - 1), store (take (unat sz - 1) t @ [NUL]) buffer) \<and>
            spa_scnprintf expand buffer sz format args =
              Returned (word_of_nat (unat sz - 1), store (take (unat sz - 1) t @ [NUL]) buffer) \<and>
            sint (word_of_nat (unat sz - 1) :: 32 word) = int (unat sz) - 1)"
proof (intro conjI impI)
  assume fits: "length t < unat sz"
  show "spa_vscnprintf expand buffer sz format args =
      Returned (word_of_nat (length t), store (t @ [NUL]) buffer)"
    using assms fits by (rule spa_vscnprintf_fits)
  then show "spa_scnprintf expand buffer sz format args =
      Returned (word_of_nat (length t), store (t @ [NUL]) buffer)"
    by (simp add: spa_scnprintf_def)
  show "sint (word_of_nat (length t) :: 32 word) = int (length t)"
    using assms(3) by (rule sint_length32)
next
  assume cut: "unat sz \<le> length t"
  show "spa_vscnprintf expand buffer sz format args =
      Returned (word_of_nat (unat sz - 1), store (take (unat sz - 1) t @ [NUL]) buffer)"
    using assms cut by (rule spa_vscnprintf_truncates)
  then show "spa_scnprintf expand buffer sz format args =
      Returned (word_of_nat (unat sz - 1), store (take (unat sz - 1) t @ [NUL]) buffer)"
    by (simp add: spa_scnprintf_def)
  have "0 < unat sz"
    using assms(1) by (cases "sz = 0") (simp_all add: unat_gt_0)
  moreover have "unat sz - 1 < 2 ^ (LENGTH(32) - 1)"
    using cut assms(3) by simp
  ultimately show "sint (word_of_nat (unat sz - 1) :: 32 word) = int (unat sz) - 1"
    using sint_word_of_nat_eq [of "unat sz - 1", where 'a = 32] by (simp add: of_nat_diff)
qed

text \<open>
  The two examples of C5, for a format without directives, which expands to itself:
  capacity 4 and \<^verbatim>\<open>"hello"\<close> give 3 and \<^verbatim>\<open>"hel"\<close>, capacity 10 and \<^verbatim>\<open>"hi"\<close> give 2
  and \<^verbatim>\<open>"hi"\<close>, each with its NUL and the rest of the array untouched.
\<close>

theorem spa_scnprintf_spec_witness:
  "spa_scnprintf (\<lambda>fmt (a :: unit). Some fmt) ''0123456789'' 4 ''hello'' () =
     Returned (3, ''hel'' @ [NUL] @ ''456789'') \<and>
   spa_vscnprintf (\<lambda>fmt (a :: unit). Some fmt) ''0123456789'' 4 ''hello'' () =
     Returned (3, ''hel'' @ [NUL] @ ''456789'') \<and>
   spa_scnprintf (\<lambda>fmt (a :: unit). Some fmt) ''0123456789'' 10 ''hi'' () =
     Returned (2, ''hi'' @ [NUL] @ ''3456789'') \<and>
   spa_vscnprintf (\<lambda>fmt (a :: unit). Some fmt) ''0123456789'' 10 ''hi'' () =
     Returned (2, ''hi'' @ [NUL] @ ''3456789'')"
  using spa_scnprintf_spec [of 4 "\<lambda>fmt (a :: unit). Some fmt" "''hello''" "()" "''hello''"
      "''0123456789''"]
    spa_scnprintf_spec [of 10 "\<lambda>fmt (a :: unit). Some fmt" "''hi''" "()" "''hi''"
      "''0123456789''"]
  by (simp add: store_def)

text \<open>
  C6. With a capacity that is zero, or not positive when read as a signed number,
  \<open>spa_vscnprintf\<close> and \<open>spa_scnprintf\<close> abort and return nothing; a run that returns
  had a positive capacity, so nothing behind the assertion is reached with another one.
\<close>

theorem spa_scnprintf_aborts:
  "(sint sz \<le> 0 \<longrightarrow>
      spa_vscnprintf expand buffer sz format args = Aborted \<and>
      spa_scnprintf expand buffer sz format args = Aborted) \<and>
   spa_vscnprintf expand buffer 0 format args = Aborted \<and>
   spa_scnprintf expand buffer 0 format args = Aborted \<and>
   (spa_vscnprintf expand buffer sz format args = Returned x \<longrightarrow> 0 < sint sz) \<and>
   (spa_scnprintf expand buffer sz format args = Returned y \<longrightarrow> 0 < sint sz)"
  by (simp add: spa_scnprintf_def spa_vscnprintf_def spa_assert_def)

theorem spa_scnprintf_aborts_witness:
  "sint (2 ^ 63 :: size_t) \<le> 0 \<and>
   spa_vscnprintf (\<lambda>fmt (a :: unit). Some fmt) ''0123456789'' (2 ^ 63) ''hi'' () = Aborted \<and>
   spa_scnprintf (\<lambda>fmt (a :: unit). Some fmt) ''0123456789'' (2 ^ 63) ''hi'' () = Aborted \<and>
   spa_vscnprintf (\<lambda>fmt (a :: unit). Some fmt) ''0123456789'' 0 ''hi'' () = Aborted \<and>
   spa_scnprintf (\<lambda>fmt (a :: unit). Some fmt) ''0123456789'' 0 ''hi'' () = Aborted \<and>
   spa_vscnprintf (\<lambda>fmt (a :: unit). Some fmt) ''0123456789'' 10 ''hi'' () =
     Returned (2, ''hi'' @ [NUL] @ ''3456789'') \<and> 0 < sint (10 :: size_t)"
proof -
  have neg: "sint (2 ^ 63 :: size_t) \<le> 0"
    by simp
  have ret: "spa_vscnprintf (\<lambda>fmt (a :: unit). Some fmt) ''0123456789'' 10 ''hi'' () =
     Returned (2, ''hi'' @ [NUL] @ ''3456789'')"
    by (simp add: spa_vscnprintf_def spa_assert_def vsnprintf_def store_def)
  show ?thesis
    using neg ret
      spa_scnprintf_aborts [of "2 ^ 63" "\<lambda>fmt (a :: unit). Some fmt" "''0123456789''" "''hi''" "()"]
      spa_scnprintf_aborts [of 10 "\<lambda>fmt (a :: unit). Some fmt" "''0123456789''" "''hi''" "()"
        "(2, ''hi'' @ [NUL] @ ''3456789'')"]
    by simp
qed

end
